theory Spec2Isabelle
  imports Complex_Main "HOL-Library.Char_ord" "HOL-Library.List_Lexorder"
    "HOL-Library.Monad_Syntax" "HOL-Library.Multiset"
begin

section \<open>Python strings\<close>

text \<open>
  A Python \<open>str\<close> is modelled as a \<open>string\<close>; a \<open>char\<close> stands for the code point of the
  same number, so the model covers the code points below 256 (Latin-1). On these,
  \<open>str.isspace\<close>, \<open>str.lower\<close>, \<open>str.strip\<close>, \<open>str.split\<close> with no argument, the \<open>in\<close>
  operator and \<open>str.join\<close> are as follows.
\<close>

definition isspace :: "char \<Rightarrow> bool" where
  "isspace c = (let n = (of_char c :: nat) in
     (9 \<le> n \<and> n \<le> 13) \<or> (28 \<le> n \<and> n \<le> 32) \<or> n = 133 \<or> n = 160)"

definition lower_char :: "char \<Rightarrow> char" where
  "lower_char c = (let n = (of_char c :: nat) in
     if (65 \<le> n \<and> n \<le> 90) \<or> (192 \<le> n \<and> n \<le> 214) \<or> (216 \<le> n \<and> n \<le> 222)
     then char_of (n + 32) else c)"

definition lower :: "string \<Rightarrow> string" where
  "lower s = map lower_char s"

definition strip :: "string \<Rightarrow> string" where
  "strip s = rev (dropWhile isspace (rev (dropWhile isspace s)))"

text \<open>\<open>split_from cur s\<close> continues a split in which \<open>cur\<close> is the token read so far.\<close>

fun split_from :: "string \<Rightarrow> string \<Rightarrow> string list" where
  "split_from cur [] = (if cur = [] then [] else [cur])"
| "split_from cur (c # cs) =
     (if isspace c then (if cur = [] then split_from [] cs else cur # split_from [] cs)
      else split_from (cur @ [c]) cs)"

definition split_ws :: "string \<Rightarrow> string list" where
  "split_ws s = split_from [] s"

fun startswith :: "string \<Rightarrow> string \<Rightarrow> bool" where
  "startswith hay [] = True"
| "startswith [] (n # ns) = False"
| "startswith (h # hs) (n # ns) = (h = n \<and> startswith hs ns)"

text \<open>\<open>contains hay needle\<close> is Python's \<open>needle in hay\<close>.\<close>

fun contains :: "string \<Rightarrow> string \<Rightarrow> bool" where
  "contains [] needle = (needle = [])"
| "contains (h # hs) needle = (startswith (h # hs) needle \<or> contains hs needle)"

fun join :: "string \<Rightarrow> string list \<Rightarrow> string" where
  "join sep [] = []"
| "join sep [x] = x"
| "join sep (x # y # ys) = x @ sep @ join sep (y # ys)"

definition digit_char :: "nat \<Rightarrow> char" where
  "digit_char n = ''0123456789'' ! (n mod 10)"

fun digits :: "nat \<Rightarrow> string" where
  "digits n = (if n < 10 then [digit_char n] else digits (n div 10) @ [digit_char (n mod 10)])"

text \<open>\<open>str(i)\<close> for an integer.\<close>

definition str_int :: "int \<Rightarrow> string" where
  "str_int i = (if i < 0 then CHR ''-'' # digits (nat (- i)) else digits (nat i))"

text \<open>The format \<open>%0wd\<close> for a natural number.\<close>

definition zero_padded :: "nat \<Rightarrow> nat \<Rightarrow> string" where
  "zero_padded w n = replicate (w - length (digits n)) CHR ''0'' @ digits n"

definition digit_val :: "char \<Rightarrow> nat option" where
  "digit_val c = (let n = (of_char c :: nat) in if 48 \<le> n \<and> n \<le> 57 then Some (n - 48) else None)"

fun number_from :: "nat \<Rightarrow> string \<Rightarrow> nat option" where
  "number_from acc [] = Some acc"
| "number_from acc (c # cs) =
     (case digit_val c of None \<Rightarrow> None | Some d \<Rightarrow> number_from (10 * acc + d) cs)"

section \<open>Calendar dates\<close>

record date =
  year :: nat
  month :: nat
  day :: nat

definition is_leap :: "nat \<Rightarrow> bool" where
  "is_leap y = (y mod 4 = 0 \<and> (y mod 100 \<noteq> 0 \<or> y mod 400 = 0))"

definition days_in_month :: "nat \<Rightarrow> nat \<Rightarrow> nat" where
  "days_in_month y m =
     (if m = 2 then (if is_leap y then 29 else 28)
      else if m = 4 \<or> m = 6 \<or> m = 9 \<or> m = 11 then 30 else 31)"

text \<open>The dates a \<open>datetime.date\<close> can hold.\<close>

definition valid_date :: "date \<Rightarrow> bool" where
  "valid_date d = (1 \<le> year d \<and> year d \<le> 9999 \<and> 1 \<le> month d \<and> month d \<le> 12 \<and>
     1 \<le> day d \<and> day d \<le> days_in_month (year d) (month d))"

definition date_isoformat :: "date \<Rightarrow> string" where
  "date_isoformat d =
     zero_padded 4 (year d) @ ''-'' @ zero_padded 2 (month d) @ ''-'' @ zero_padded 2 (day d)"

text \<open>
  Reading a date back from the text \<open>YYYY-MM-DD\<close>, the only form \<open>model_dump\<close> writes.
\<close>

definition parse_date :: "string \<Rightarrow> date option" where
  "parse_date s =
     (if length s = 10 \<and> s ! 4 = CHR ''-'' \<and> s ! 7 = CHR ''-'' then
        (case (number_from 0 (take 4 s), number_from 0 (take 2 (drop 5 s)),
               number_from 0 (drop 8 s)) of
           (Some y, Some m, Some d) \<Rightarrow>
             (let r = \<lparr>year = y, month = m, day = d\<rparr> in if valid_date r then Some r else None)
         | _ \<Rightarrow> None)
      else None)"

section \<open>JSON values and Python dictionaries\<close>

text \<open>
  The values \<open>json.loads\<close> returns and \<open>json.dumps\<close> accepts. A Python \<open>dict\<close> is an
  association list in iteration order. Floating-point numbers are left out: the registry
  writes none.
\<close>

datatype json = JNull | JBool bool | JInt int | JStr string | JArr "json list"
  | JObj "(string \<times> json) list"

text \<open>Python's truth value (\<open>not x\<close> is its negation).\<close>

fun truthy :: "json \<Rightarrow> bool" where
  "truthy JNull = False"
| "truthy (JBool b) = b"
| "truthy (JInt i) = (i \<noteq> 0)"
| "truthy (JStr s) = (s \<noteq> [])"
| "truthy (JArr vs) = (vs \<noteq> [])"
| "truthy (JObj kvs) = (kvs \<noteq> [])"

text \<open>\<open>d.get(k)\<close> is \<^term>\<open>map_of d k\<close>; \<open>d[k] = v\<close> keeps the place of a key already there.\<close>

fun dict_set :: "(string \<times> 'v) list \<Rightarrow> string \<Rightarrow> 'v \<Rightarrow> (string \<times> 'v) list" where
  "dict_set [] k v = [(k, v)]"
| "dict_set ((k', v') # kvs) k v =
     (if k' = k then (k, v) # kvs else (k', v') # dict_set kvs k v)"

text \<open>
  \<open>str(x)\<close> for the scalars a dumped record holds (lists and dictionaries, whose \<open>str\<close> is
  their \<open>repr\<close>, are no field of it).
\<close>

fun py_str :: "json \<Rightarrow> string" where
  "py_str JNull = ''None''"
| "py_str (JBool b) = (if b then ''True'' else ''False'')"
| "py_str (JInt i) = str_int i"
| "py_str (JStr s) = s"

text \<open>
  What \<open>json.loads\<close> reads back from the text \<open>json.dumps(v, sort_keys=True)\<close>: the same
  value with the items of every dictionary in key order.
\<close>

fun sort_keys :: "json \<Rightarrow> json" where
  "sort_keys (JObj kvs) = JObj (sort_key fst (map (\<lambda>(k, v). (k, sort_keys v)) kvs))"
| "sort_keys (JArr vs) = JArr (map sort_keys vs)"
| "sort_keys v = v"

text \<open>The exceptions the services can raise.\<close>

datatype error = UnicodeDecodeError | JSONDecodeError | RecursionError | ValueError
  | AttributeError | TypeError | KeyError | ValidationError

text \<open>
  The standard library's encoder and decoder are parameters of the model:
  \<open>dumps c v\<close> is \<open>json.dumps(v, indent=2, sort_keys=True)\<close> and \<open>loads c s\<close> is
  \<open>json.loads(s)\<close>, the value decoded or the exception raised: \<open>JSONDecodeError\<close> for a
  text that is no JSON, \<open>RecursionError\<close> for one nested too deep, \<open>ValueError\<close> for an
  integer of too many digits.
\<close>

record codec =
  dumps :: "json \<Rightarrow> string"
  loads :: "string \<Rightarrow> error + json"

text \<open>
  The decoder reads a written value back: the text is not blank and decodes to the value
  in key order.
\<close>

definition reads_back :: "codec \<Rightarrow> json \<Rightarrow> bool" where
  "reads_back c v =
     (strip (dumps c v) \<noteq> [] \<and> loads c (strip (dumps c v)) = Inr (sort_keys v))"

section \<open>Schemas\<close>

datatype DocumentSource = Upload | Sftp | Email | Api

datatype DocumentStatus = Received | Processing | Processed | Error

datatype AlertSeverity = Low | Medium | High | Critical

datatype AlertStatus = New | InReview | Resolved | FalsePositive

text \<open>A \<open>datetime\<close>, held as its \<open>isoformat()\<close> text.\<close>

datatype datetime = Datetime string

fun datetime_isoformat :: "datetime \<Rightarrow> string" where
  "datetime_isoformat (Datetime s) = s"

record DocumentIngestionResponse =
  document_id :: string
  status :: DocumentStatus
  received_at :: datetime

record QueryRequest =
  query :: string
  document_filters :: "(string \<times> string) list option"
  max_results :: int

record QueryResultSnippet =
  document_id :: string
  section_heading :: "string option"
  page :: "int option"
  excerpt :: string
  score :: real

record QueryResponse =
  answer :: string
  citations :: "QueryResultSnippet list"
  latency_ms :: int

record ComplianceAlert =
  alert_id :: string
  document_id :: string
  rule_id :: string
  severity :: AlertSeverity
  status :: AlertStatus
  summary :: string
  created_at :: datetime
  assignee :: "string option"

record ComplianceAlertList =
  alerts :: "ComplianceAlert list"
  total :: int

text \<open>
  \<open>DocumentIngestionRequest\<close> with the fields it inherits from \<open>DocumentMetadata\<close>, in
  declaration order. \<open>content_url\<close> holds the text of the validated URL.
\<close>

record DocumentIngestionRequest =
  document_id :: "string option"
  tenant_id :: string
  issuer :: string
  product :: string
  document_type :: string
  reporting_period :: "date option"
  language :: string
  source :: DocumentSource
  version :: int
  filename :: string
  content_url :: "string option"

fun source_str :: "DocumentSource \<Rightarrow> string" where
  "source_str Upload = ''upload''"
| "source_str Sftp = ''sftp''"
| "source_str Email = ''email''"
| "source_str Api = ''api''"

definition parse_source :: "string \<Rightarrow> DocumentSource option" where
  "parse_source s =
     (if s = ''upload'' then Some Upload else if s = ''sftp'' then Some Sftp
      else if s = ''email'' then Some Email else if s = ''api'' then Some Api else None)"

definition opt_json :: "string option \<Rightarrow> json" where
  "opt_json x = (case x of None \<Rightarrow> JNull | Some s \<Rightarrow> JStr s)"

text \<open>\<open>payload.model_dump(mode="json")\<close>.\<close>

definition model_dump :: "DocumentIngestionRequest \<Rightarrow> (string \<times> json) list" where
  "model_dump r =
     [(''document_id'', opt_json (DocumentIngestionRequest.document_id r)),
      (''tenant_id'', JStr (tenant_id r)),
      (''issuer'', JStr (issuer r)),
      (''product'', JStr (product r)),
      (''document_type'', JStr (document_type r)),
      (''reporting_period'', opt_json (map_option date_isoformat (reporting_period r))),
      (''language'', JStr (language r)),
      (''source'', JStr (source_str (source r))),
      (''version'', JInt (version r)),
      (''filename'', JStr (filename r)),
      (''content_url'', opt_json (content_url r))]"

text \<open>
  Validation of one field of a dictionary, \<open>None\<close> for a validation error. An optional
  field may be missing or null; a field with a default may be missing; a required field
  must be there. The validators accept the JSON forms \<open>model_dump\<close> writes (pydantic's
  further coercions, such as a numeric string for an integer, are not modelled).
\<close>

definition optional_str :: "(string \<times> json) list \<Rightarrow> string \<Rightarrow> string option option" where
  "optional_str d k =
     (case map_of d k of None \<Rightarrow> Some None | Some JNull \<Rightarrow> Some None
      | Some (JStr s) \<Rightarrow> Some (Some s) | Some _ \<Rightarrow> None)"

definition required_str :: "(string \<times> json) list \<Rightarrow> string \<Rightarrow> string option" where
  "required_str d k = (case map_of d k of Some (JStr s) \<Rightarrow> Some s | _ \<Rightarrow> None)"

definition default_str :: "(string \<times> json) list \<Rightarrow> string \<Rightarrow> string \<Rightarrow> string option" where
  "default_str d k dflt =
     (case map_of d k of None \<Rightarrow> Some dflt | Some (JStr s) \<Rightarrow> Some s | Some _ \<Rightarrow> None)"

definition default_int :: "(string \<times> json) list \<Rightarrow> string \<Rightarrow> int \<Rightarrow> int option" where
  "default_int d k dflt =
     (case map_of d k of None \<Rightarrow> Some dflt | Some (JInt i) \<Rightarrow> Some i | Some _ \<Rightarrow> None)"

text \<open>
  The texts accepted as an \<open>HttpUrl\<close>: scheme \<open>http\<close> or \<open>https\<close>, a non-empty rest, at most
  2083 characters. The URL parser's normalisation is not modelled: a record holds the text
  as it is written back by \<open>model_dump\<close>.
\<close>

definition is_http_url :: "string \<Rightarrow> bool" where
  "is_http_url s =
     (length s \<le> 2083 \<and>
      ((startswith s ''http://'' \<and> 7 < length s) \<or> (startswith s ''https://'' \<and> 8 < length s)))"

definition validate_fields :: "(string \<times> json) list \<Rightarrow> DocumentIngestionRequest option" where
  "validate_fields d = do {
     di \<leftarrow> optional_str d ''document_id'';
     te \<leftarrow> required_str d ''tenant_id'';
     iss \<leftarrow> required_str d ''issuer'';
     pr \<leftarrow> required_str d ''product'';
     dt \<leftarrow> required_str d ''document_type'';
     rp \<leftarrow> optional_str d ''reporting_period'';
     rp' \<leftarrow> (case rp of None \<Rightarrow> Some None | Some s \<Rightarrow> map_option Some (parse_date s));
     la \<leftarrow> default_str d ''language'' ''en'';
     so \<leftarrow> default_str d ''source'' ''upload'';
     so' \<leftarrow> parse_source so;
     ve \<leftarrow> default_int d ''version'' 1;
     fi \<leftarrow> required_str d ''filename'';
     cu \<leftarrow> optional_str d ''content_url'';
     cu' \<leftarrow> (case cu of None \<Rightarrow> Some None
              | Some u \<Rightarrow> if is_http_url u then Some (Some u) else None);
     Some \<lparr>DocumentIngestionRequest.document_id = di, tenant_id = te, issuer = iss,
       product = pr, document_type = dt, reporting_period = rp', language = la, source = so',
       version = ve, filename = fi, content_url = cu'\<rparr>
   }"

text \<open>\<open>DocumentIngestionRequest.model_validate(v)\<close>.\<close>

definition model_validate :: "json \<Rightarrow> error + DocumentIngestionRequest" where
  "model_validate v =
     (case v of
        JObj d \<Rightarrow> (case validate_fields d of None \<Rightarrow> Inl ValidationError | Some r \<Rightarrow> Inr r)
      | _ \<Rightarrow> Inl ValidationError)"

text \<open>
  The records the web layer can hand to the registry: the date is a calendar date and the
  URL has been accepted.
\<close>

definition valid_request :: "DocumentIngestionRequest \<Rightarrow> bool" where
  "valid_request r =
     ((case reporting_period r of None \<Rightarrow> True | Some d \<Rightarrow> valid_date d) \<and>
      (case content_url r of None \<Rightarrow> True | Some u \<Rightarrow> is_http_url u))"

section \<open>DocumentRegistry\<close>

text \<open>
  The state of the registry is the content of the store file: a text, or bytes that are
  no text in the encoding of \<open>read_text\<close>, which then raises \<open>UnicodeDecodeError\<close>. The
  clock and \<open>uuid4()\<close> are inputs.
\<close>

datatype store_file = Text string | NotText

definition read_text :: "store_file \<Rightarrow> error + string" where
  "read_text file = (case file of Text s \<Rightarrow> Inr s | NotText \<Rightarrow> Inl UnicodeDecodeError)"

text \<open>
  \<open>load\<close> is \<open>_load\<close>: of the exceptions raised inside the \<open>try\<close>, only \<open>JSONDecodeError\<close> is
  caught. \<open>save\<close> is \<open>_save\<close>, returning the new content of the file.
\<close>

definition load :: "codec \<Rightarrow> store_file \<Rightarrow> error + json" where
  "load c file =
     (case read_text file of
        Inl e \<Rightarrow> Inl e
      | Inr text \<Rightarrow>
          (let raw = strip text in
           if raw = [] then Inr (JObj [])
           else (case loads c raw of
                   Inl e \<Rightarrow> if e = JSONDecodeError then Inr (JObj []) else Inl e
                 | Inr v \<Rightarrow> Inr v)))"

definition save :: "codec \<Rightarrow> json \<Rightarrow> store_file" where
  "save c payload = Text (dumps c payload)"

text \<open>\<open>payload.document_id or str(uuid4())\<close>.\<close>

definition resolve_id :: "string option \<Rightarrow> string \<Rightarrow> string" where
  "resolve_id given uuid = (case given of None \<Rightarrow> uuid | Some s \<Rightarrow> if s = [] then uuid else s)"

definition document_payload :: "datetime \<Rightarrow> DocumentIngestionRequest \<Rightarrow> json" where
  "document_payload created payload =
     JObj [(''created_at'', JStr (datetime_isoformat created)),
           (''document'', JObj (model_dump payload))]"

text \<open>
  The body of \<open>register\<close> up to the write: the id and the new content of the store.
  Assigning to an item of a value that is no dictionary raises \<open>TypeError\<close>.
\<close>

definition register_data ::
  "codec \<Rightarrow> store_file \<Rightarrow> datetime \<Rightarrow> string \<Rightarrow> DocumentIngestionRequest
     \<Rightarrow> error + (string \<times> json)" where
  "register_data c file created uuid payload =
     (case load c file of
        Inl e \<Rightarrow> Inl e
      | Inr data \<Rightarrow>
          (let did = resolve_id (DocumentIngestionRequest.document_id payload) uuid;
               payload' = payload\<lparr>DocumentIngestionRequest.document_id := Some did\<rparr>
           in case data of
                JObj kvs \<Rightarrow>
                  Inr (did, JObj (dict_set kvs did (document_payload created payload')))
              | _ \<Rightarrow> Inl TypeError))"

definition register ::
  "codec \<Rightarrow> store_file \<Rightarrow> datetime \<Rightarrow> string \<Rightarrow> DocumentIngestionRequest
     \<Rightarrow> error + (store_file \<times> DocumentIngestionResponse)" where
  "register c file created uuid payload =
     (case register_data c file created uuid payload of
        Inl e \<Rightarrow> Inl e
      | Inr (did, data) \<Rightarrow>
          Inr (save c data,
               \<lparr>DocumentIngestionResponse.document_id = did, status = Received,
                received_at = created\<rparr>))"

text \<open>\<open>item["document"]\<close> followed by \<open>model_validate\<close>.\<close>

definition stored_document :: "json \<Rightarrow> error + DocumentIngestionRequest" where
  "stored_document item =
     (case item of
        JObj e \<Rightarrow> (case map_of e ''document'' of None \<Rightarrow> Inl KeyError
                   | Some d \<Rightarrow> model_validate d)
      | _ \<Rightarrow> Inl TypeError)"

definition get ::
  "codec \<Rightarrow> store_file \<Rightarrow> string \<Rightarrow> error + DocumentIngestionRequest option" where
  "get c file did =
     (case load c file of
        Inl e \<Rightarrow> Inl e
      | Inr (JObj kvs) \<Rightarrow>
          (case map_of kvs did of
             None \<Rightarrow> Inr None
           | Some stored \<Rightarrow>
               if \<not> truthy stored then Inr None
               else (case stored_document stored of Inl e \<Rightarrow> Inl e | Inr r \<Rightarrow> Inr (Some r)))
      | Inr _ \<Rightarrow> Inl AttributeError)"

fun list_items :: "json list \<Rightarrow> error + DocumentIngestionRequest list" where
  "list_items [] = Inr []"
| "list_items (item # items) =
     (case stored_document item of
        Inl e \<Rightarrow> Inl e
      | Inr r \<Rightarrow> (case list_items items of Inl e \<Rightarrow> Inl e | Inr rs \<Rightarrow> Inr (r # rs)))"

definition list_documents ::
  "codec \<Rightarrow> store_file \<Rightarrow> error + DocumentIngestionRequest list" where
  "list_documents c file =
     (case load c file of
        Inl e \<Rightarrow> Inl e
      | Inr (JObj kvs) \<Rightarrow> list_items (map snd kvs)
      | Inr _ \<Rightarrow> Inl AttributeError)"

definition clear :: "codec \<Rightarrow> store_file" where
  "clear c = save c (JObj [])"

section \<open>Python floats\<close>

text \<open>
  A float is modelled by the real number it is, a binary fraction of 53 significant bits
  (IEEE 754 binary64, within the normal range). \<open>float_div a b\<close> is the float \<open>a / b\<close> of two
  integers with \<open>b\<close> positive: the quotient rounded to the nearest float, a tie going to the
  even one. \<open>bits n\<close> is the bit length of \<open>n\<close> and \<open>exponent a b\<close> the binary exponent of the
  quotient.
\<close>

definition round_half_even :: "real \<Rightarrow> int" where
  "round_half_even x =
     (let f = \<lfloor>x\<rfloor>; r = x - of_int f in
      if r < 1 / 2 then f else if 1 / 2 < r then f + 1 else if even f then f else f + 1)"

fun bits :: "nat \<Rightarrow> nat" where
  "bits n = (if n = 0 then 0 else Suc (bits (n div 2)))"

declare bits.simps [simp del]

definition exponent :: "nat \<Rightarrow> nat \<Rightarrow> int" where
  "exponent a b =
     (let d = int (bits a) - int (bits b) in
      if 2 powi d \<le> real a / real b then d else d - 1)"

definition float_div :: "nat \<Rightarrow> nat \<Rightarrow> real" where
  "float_div a b =
     (if a = 0 then 0
      else (let e = exponent a b in
            of_int (round_half_even (real a / real b * 2 powi (52 - e))) * 2 powi (e - 52)))"

text \<open>
  \<open>decimal m k\<close> is the float nearest to the decimal number \<open>m / 10\<^sup>k\<close>: the literal \<open>0.05\<close>
  is \<open>decimal 5 2\<close> and \<open>0.1\<close> is \<open>decimal 10 2\<close>.
\<close>

definition decimal :: "nat \<Rightarrow> nat \<Rightarrow> real" where
  "decimal m k = float_div m (10 ^ k)"

text \<open>
  \<open>round(x, 2)\<close> for a float \<open>x\<close> that is not negative: the float nearest to \<open>x\<close> rounded to
  two decimals, where the exact value of \<open>x\<close> is rounded and a tie goes to the even
  hundredth.
\<close>

definition round2 :: "real \<Rightarrow> real" where
  "round2 x = decimal (nat (round_half_even (x * 100))) 2"

section \<open>QueryEngine\<close>

text \<open>
  The test of one document against the filters:
  \<open>all(str(doc_data.get(key, "")).lower() == value.lower() for key, value in filters.items())\<close>.
\<close>

definition filter_value :: "(string \<times> json) list \<Rightarrow> string \<Rightarrow> string" where
  "filter_value doc_data key = (case map_of doc_data key of None \<Rightarrow> [] | Some v \<Rightarrow> py_str v)"

fun all_filters :: "(string \<times> json) list \<Rightarrow> (string \<times> string) list \<Rightarrow> bool" where
  "all_filters doc_data [] = True"
| "all_filters doc_data ((key, val) # rest) =
     (if lower (filter_value doc_data key) = lower val then all_filters doc_data rest else False)"

fun filter_loop ::
  "(string \<times> string) list \<Rightarrow> DocumentIngestionRequest list \<Rightarrow> DocumentIngestionRequest list" where
  "filter_loop filters [] = []"
| "filter_loop filters (document # documents) =
     (if all_filters (model_dump document) filters
      then document # filter_loop filters documents
      else filter_loop filters documents)"

definition filter_documents ::
  "DocumentIngestionRequest list \<Rightarrow> (string \<times> string) list option
     \<Rightarrow> DocumentIngestionRequest list" where
  "filter_documents documents filters =
     (case filters of
        None \<Rightarrow> documents
      | Some fs \<Rightarrow> if fs = [] then documents else filter_loop fs documents)"

text \<open>\<open>filter(None, xs)\<close> on a list of optional strings drops \<open>None\<close> and the empty string.\<close>

fun filter_none :: "string option list \<Rightarrow> string list" where
  "filter_none [] = []"
| "filter_none (None # xs) = filter_none xs"
| "filter_none (Some s # xs) = (if s = [] then filter_none xs else s # filter_none xs)"

definition searchable :: "DocumentIngestionRequest \<Rightarrow> string" where
  "searchable document =
     lower (join '' '' (filter_none
       [Some (issuer document), Some (product document), Some (document_type document),
        Some (language document), Some (source_str (source document)),
        Some (filename document), map_option date_isoformat (reporting_period document)]))"

text \<open>
  \<open>raw_score\<close> is the branch
  \<open>if not query: score = 0.0 else: score = sum(...) / max(len(query.split()), 1)\<close>.
\<close>

definition raw_score :: "string \<Rightarrow> string \<Rightarrow> real" where
  "raw_score q text =
     (if q = [] then 0
      else float_div (length (filter (\<lambda>token. contains text token) (split_ws q)))
             (max (length (split_ws q)) 1))"

text \<open>The body of the scoring loop for one document: the match appended, if any.\<close>

definition match_document ::
  "string \<Rightarrow> DocumentIngestionRequest \<Rightarrow> (DocumentIngestionRequest \<times> real) option" where
  "match_document q document =
     (let text = searchable document; sc = raw_score q text in
      if q = [] \<or> contains text q \<or> sc > 0
      then Some (document, min 1 (max sc (if q \<noteq> [] then decimal 5 2 else decimal 10 2)))
      else None)"

fun match_loop ::
  "string \<Rightarrow> DocumentIngestionRequest list \<Rightarrow> (DocumentIngestionRequest \<times> real) list" where
  "match_loop q [] = []"
| "match_loop q (document # documents) =
     (case match_document q document of
        None \<Rightarrow> match_loop q documents
      | Some m \<Rightarrow> m # match_loop q documents)"

text \<open>
  \<open>matches.sort(key=lambda item: item[1], reverse=True)\<close>: a stable sort with every
  comparison reversed.
\<close>

definition sort_matches :: "('a \<times> real) list \<Rightarrow> ('a \<times> real) list" where
  "sort_matches ms = sort_key (\<lambda>item. - snd item) ms"

text \<open>The slice \<open>xs[:n]\<close>; a negative \<open>n\<close> counts from the end.\<close>

definition slice_to :: "'a list \<Rightarrow> int \<Rightarrow> 'a list" where
  "slice_to xs n = (if 0 \<le> n then take (nat n) xs else take (length xs - nat (- n)) xs)"

definition answer_line :: "DocumentIngestionRequest \<Rightarrow> string" where
  "answer_line document =
     ''- '' @ product document @ '' ('' @ document_type document @ '') for '' @
     (case reporting_period document of
        None \<Rightarrow> ''unspecified period'' | Some d \<Rightarrow> date_isoformat d)"

text \<open>\<open>document.document_id or "unknown"\<close>.\<close>

definition id_or_unknown :: "string option \<Rightarrow> string" where
  "id_or_unknown x = (case x of None \<Rightarrow> ''unknown'' | Some s \<Rightarrow> if s = [] then ''unknown'' else s)"

definition snippet :: "DocumentIngestionRequest \<times> real \<Rightarrow> QueryResultSnippet" where
  "snippet m =
     (case m of (document, sc) \<Rightarrow>
       \<lparr>QueryResultSnippet.document_id =
          id_or_unknown (DocumentIngestionRequest.document_id document),
        section_heading = Some ''Metadata'',
        page = None,
        excerpt = ''Issuer: '' @ issuer document @ ''. Product: '' @ product document @
                  ''. Filename: '' @ filename document @ ''.'',
        score = round2 sc\<rparr>)"

definition no_match_message :: string where
  "no_match_message =
     ''No documents matched your query. Try adjusting the query text or filters once documents '' @
     ''have been processed.''"

text \<open>\<open>int(x)\<close> for a float: truncation towards zero.\<close>

definition py_int :: "real \<Rightarrow> int" where
  "py_int x = (if 0 \<le> x then \<lfloor>x\<rfloor> else \<lceil>x\<rceil>)"

text \<open>
  \<open>QueryEngine.answer\<close> on the documents the registry lists; \<open>elapsed\<close> is the difference
  of the two readings of \<open>perf_counter()\<close>.
\<close>

definition matches_of ::
  "DocumentIngestionRequest list \<Rightarrow> QueryRequest \<Rightarrow> (DocumentIngestionRequest \<times> real) list" where
  "matches_of listed payload =
     (let documents = filter_documents listed (document_filters payload);
          q = lower (strip (query payload))
      in match_loop q documents)"

definition answer_documents ::
  "DocumentIngestionRequest list \<Rightarrow> QueryRequest \<Rightarrow> real \<Rightarrow> QueryResponse" where
  "answer_documents listed payload elapsed =
     (let matches = slice_to (sort_matches (matches_of listed payload)) (max_results payload);
          latency = max 1 (py_int (elapsed * 1000))
      in if matches \<noteq> []
         then \<lparr>answer = join [CHR 0x0A]
                 (''Found the following documents matching your request:''
                    # map (\<lambda>m. answer_line (fst m)) matches),
               citations = map snippet matches, latency_ms = latency\<rparr>
         else \<lparr>answer = no_match_message, citations = [], latency_ms = latency\<rparr>)"

text \<open>
  \<open>QueryEngine.answer\<close> on the store: an error of \<open>self._registry.list()\<close> is passed on.
\<close>

definition query_answer ::
  "codec \<Rightarrow> store_file \<Rightarrow> QueryRequest \<Rightarrow> real \<Rightarrow> error + QueryResponse" where
  "query_answer c file payload elapsed =
     (case list_documents c file of
        Inl e \<Rightarrow> Inl e
      | Inr listed \<Rightarrow> Inr (answer_documents listed payload elapsed))"

section \<open>ComplianceService\<close>

text \<open>An optional string inside an f-string: \<open>None\<close> prints as \<open>None\<close>.\<close>

definition format_opt :: "string option \<Rightarrow> string" where
  "format_opt x = (case x of None \<Rightarrow> ''None'' | Some s \<Rightarrow> s)"

definition verified_languages :: "string list" where
  "verified_languages = [''en'', ''es'', ''fr'', ''de'', ''it'', ''zh'']"

definition missing_period_alert :: "datetime \<Rightarrow> DocumentIngestionRequest \<Rightarrow> ComplianceAlert" where
  "missing_period_alert now document =
     \<lparr>alert_id = format_opt (DocumentIngestionRequest.document_id document)
                  @ ''-missing-reporting-period'',
      ComplianceAlert.document_id = id_or_unknown (DocumentIngestionRequest.document_id document),
      rule_id = ''missing_reporting_period'',
      severity = Medium,
      ComplianceAlert.status = New,
      summary = ''Document metadata is missing a reporting period.'',
      created_at = now,
      assignee = None\<rparr>"

definition unverified_language_alert :: "datetime \<Rightarrow> DocumentIngestionRequest \<Rightarrow> ComplianceAlert" where
  "unverified_language_alert now document =
     \<lparr>alert_id = format_opt (DocumentIngestionRequest.document_id document)
                  @ ''-unverified-language'',
      ComplianceAlert.document_id = id_or_unknown (DocumentIngestionRequest.document_id document),
      rule_id = ''unverified_language'',
      severity = Low,
      ComplianceAlert.status = New,
      summary = ''Language code is outside the verified set; ensure translated disclosures are available.'',
      created_at = now,
      assignee = None\<rparr>"

text \<open>The loop of \<open>list_alerts\<close>, the alerts so far being \<open>acc\<close>.\<close>

fun alerts_loop ::
  "datetime \<Rightarrow> ComplianceAlert list \<Rightarrow> DocumentIngestionRequest list \<Rightarrow> ComplianceAlert list" where
  "alerts_loop now acc [] = acc"
| "alerts_loop now acc (document # documents) =
     (let acc1 = (if reporting_period document = None
                  then acc @ [missing_period_alert now document] else acc);
          acc2 = (if lower (language document) \<notin> set verified_languages
                  then acc1 @ [unverified_language_alert now document] else acc1)
      in alerts_loop now acc2 documents)"

definition list_alerts ::
  "codec \<Rightarrow> store_file \<Rightarrow> datetime \<Rightarrow> error + ComplianceAlertList" where
  "list_alerts c file now =
     (case list_documents c file of
        Inl e \<Rightarrow> Inl e
      | Inr documents \<Rightarrow>
          (let found = alerts_loop now [] documents
           in Inr \<lparr>alerts = found, total = int (length found)\<rparr>))"

section \<open>The terms of the specification\<close>

text \<open>
  The specification's words for the score of a document, to be compared with the code.
  The searchable text is built from issuer, product, document type, language, source,
  file name and reporting period (as its ISO date), those that are there and not empty,
  joined by single spaces and put in lower case.
\<close>

definition searchable_text :: "DocumentIngestionRequest \<Rightarrow> string" where
  "searchable_text document =
     map lower_char
       (join '' ''
          (filter (\<lambda>part. part \<noteq> [])
             ([issuer document, product document, document_type document,
               language document, source_str (source document), filename document]
              @ (case reporting_period document of
                   None \<Rightarrow> [] | Some period \<Rightarrow> [date_isoformat period]))))"

text \<open>
  The fraction of the query's tokens that occur in the searchable text (a quotient of
  floats), the condition under which a document qualifies, and the score reported for it.
\<close>

definition token_overlap :: "string \<Rightarrow> string \<Rightarrow> real" where
  "token_overlap q text =
     float_div (length (filter (\<lambda>token. contains text token) (split_ws q)))
       (length (split_ws q))"

definition clamp :: "real \<Rightarrow> real \<Rightarrow> real \<Rightarrow> real" where
  "clamp lo hi x = (if x < lo then lo else if hi < x then hi else x)"

definition qualifies :: "string \<Rightarrow> DocumentIngestionRequest \<Rightarrow> bool" where
  "qualifies q document =
     (q = [] \<or> contains (searchable_text document) q
      \<or> 0 < token_overlap q (searchable_text document))"

definition reported_score :: "string \<Rightarrow> DocumentIngestionRequest \<Rightarrow> real" where
  "reported_score q document =
     (if q = [] then decimal 10 2
      else clamp (decimal 5 2) 1 (token_overlap q (searchable_text document)))"

text \<open>
  The field of a document looked up by name on the serialized record, as text. An absent
  field compares as the empty string: a name that is no field of the record, and a field
  that holds no value. The version compares as its decimal digits.
\<close>

definition absent_as_empty :: "string option \<Rightarrow> string" where
  "absent_as_empty x = (case x of None \<Rightarrow> [] | Some s \<Rightarrow> s)"

definition field_text :: "DocumentIngestionRequest \<Rightarrow> string \<Rightarrow> string" where
  "field_text document name =
     (if name = ''document_id''
        then absent_as_empty (DocumentIngestionRequest.document_id document)
      else if name = ''tenant_id'' then tenant_id document
      else if name = ''issuer'' then issuer document
      else if name = ''product'' then product document
      else if name = ''document_type'' then document_type document
      else if name = ''reporting_period''
        then absent_as_empty (map_option date_isoformat (reporting_period document))
      else if name = ''language'' then language document
      else if name = ''source'' then source_str (source document)
      else if name = ''version'' then str_int (version document)
      else if name = ''filename'' then filename document
      else if name = ''content_url'' then absent_as_empty (content_url document)
      else [])"

text \<open>The fields of a document that hold no value.\<close>

definition null_fields :: "DocumentIngestionRequest \<Rightarrow> string set" where
  "null_fields document =
     (if DocumentIngestionRequest.document_id document = None then {''document_id''} else {})
     \<union> (if reporting_period document = None then {''reporting_period''} else {})
     \<union> (if content_url document = None then {''content_url''} else {})"

definition passes_filters :: "(string \<times> string) list \<Rightarrow> DocumentIngestionRequest \<Rightarrow> bool" where
  "passes_filters filters document =
     list_all (\<lambda>(key, val). lower (field_text document key) = lower val) filters"

text \<open>The alerts of one document: at most one for each of the two rules.\<close>

definition alerts_for :: "datetime \<Rightarrow> DocumentIngestionRequest \<Rightarrow> ComplianceAlert list" where
  "alerts_for now document =
     (if reporting_period document = None then [missing_period_alert now document] else []) @
     (if lower (language document) \<notin> {''en'', ''es'', ''fr'', ''de'', ''it'', ''zh''}
      then [unverified_language_alert now document] else [])"

section \<open>Example data\<close>

text \<open>Documents and stores on which the theorems below are instantiated.\<close>

definition fund_a :: DocumentIngestionRequest where
  "fund_a =
     \<lparr>DocumentIngestionRequest.document_id = None, tenant_id = ''t1'', issuer = ''Acme'',
      product = ''Fund A'', document_type = ''factsheet'', reporting_period = None,
      language = ''en'', source = Upload, version = 1, filename = ''a.pdf'',
      content_url = None\<rparr>"

definition fund_b :: DocumentIngestionRequest where
  "fund_b =
     \<lparr>DocumentIngestionRequest.document_id = Some ''doc-b'', tenant_id = ''tenant-456'',
      issuer = ''Global Investments'', product = ''Fund B'', document_type = ''annual report'',
      reporting_period = Some \<lparr>year = 2023, month = 12, day = 31\<rparr>,
      language = ''EN'', source = Upload, version = 1, filename = ''fund-b-annual.pdf'',
      content_url = Some ''https://example.com/fund-b.pdf''\<rparr>"

definition fund_x :: DocumentIngestionRequest where
  "fund_x =
     \<lparr>DocumentIngestionRequest.document_id = Some ''doc-x'', tenant_id = ''t2'',
      issuer = ''Alpha Partners'', product = ''Fund X'', document_type = ''filing'',
      reporting_period = None, language = ''XX'', source = Api, version = 2,
      filename = ''x.pdf'', content_url = None\<rparr>"

text \<open>
  A codec given by a table of texts and the values they decode to, every other text
  being rejected as no JSON; a value is encoded as the first text that decodes to it in
  key order. \<open>one_text_codec v\<close> has the single text \<open>store\<close>, which decodes to \<open>v\<close>.
\<close>

definition table_codec :: "(string \<times> json) list \<Rightarrow> codec" where
  "table_codec tbl =
     \<lparr>dumps = (\<lambda>v. case find (\<lambda>p. snd p = sort_keys v) tbl of
                      None \<Rightarrow> ''null'' | Some p \<Rightarrow> fst p),
      loads = (\<lambda>s. case map_of tbl s of None \<Rightarrow> Inl JSONDecodeError | Some v \<Rightarrow> Inr v)\<rparr>"

definition one_text_codec :: "json \<Rightarrow> codec" where
  "one_text_codec v = table_codec [(''store'', v)]"

definition two_documents :: json where
  "two_documents =
     JObj [(''doc-b'', document_payload (Datetime ''2024-01-01T00:00:00'') fund_b),
           (''doc-x'', document_payload (Datetime ''2024-01-02T00:00:00'') fund_x)]"

text \<open>
  The store after \<open>fund_a\<close>, which has no id, is registered in an empty store with the
  fresh id \<open>7c0e\<close>.
\<close>

definition fund_a_registered :: json where
  "fund_a_registered =
     JObj [(''7c0e'', document_payload (Datetime ''2024-01-01T00:00:00'')
                       (fund_a\<lparr>DocumentIngestionRequest.document_id := Some ''7c0e''\<rparr>))]"

text \<open>A new payload for \<open>doc-b\<close>, without reporting period and URL, and the store after it
  is registered over \<open>two_documents\<close>.\<close>

definition fund_b_revised :: DocumentIngestionRequest where
  "fund_b_revised =
     \<lparr>DocumentIngestionRequest.document_id = Some ''doc-b'', tenant_id = ''tenant-456'',
      issuer = ''Global Investments'', product = ''Fund B'', document_type = ''annual report'',
      reporting_period = None, language = ''en'', source = Sftp, version = 2,
      filename = ''fund-b-annual-v2.pdf'', content_url = None\<rparr>"

definition two_documents_revised :: json where
  "two_documents_revised =
     JObj [(''doc-b'', document_payload (Datetime ''2024-03-01T00:00:00'') fund_b_revised),
           (''doc-x'', document_payload (Datetime ''2024-01-02T00:00:00'') fund_x)]"

definition old_new_codec :: codec where
  "old_new_codec =
     table_codec [(''old'', two_documents), (''new'', sort_keys two_documents_revised)]"

text \<open>
  The store after \<open>fund_b\<close>, which carries the id \<open>doc-b\<close>, is registered in an empty store,
  and a codec that knows this store and \<open>fund_a_registered\<close>.
\<close>

definition fund_b_registered :: json where
  "fund_b_registered =
     JObj [(''doc-b'', document_payload (Datetime ''2024-01-01T00:00:00'') fund_b)]"

definition registration_codec :: codec where
  "registration_codec =
     table_codec [(''store-a'', sort_keys fund_a_registered),
                  (''store-b'', sort_keys fund_b_registered)]"

text \<open>A query of forty tokens, three of which occur in the searchable text of \<open>fund_x\<close>.\<close>

definition forty_tokens :: string where
  "forty_tokens = join '' '' ([''fund'', ''x'', ''filing''] @ replicate 37 ''zz'')"

definition query_for :: "string \<Rightarrow> int \<Rightarrow> QueryRequest" where
  "query_for text n = \<lparr>query = text, document_filters = None, max_results = n\<rparr>"

section \<open>Strings: facts\<close>

lemma startswith_iff: "startswith hay needle \<longleftrightarrow> (\<exists>ss. hay = needle @ ss)"
  by (induction hay needle rule: startswith.induct) auto

lemma contains_iff: "contains hay needle \<longleftrightarrow> (\<exists>ps ss. hay = ps @ needle @ ss)"
proof (induction hay)
  case Nil
  then show ?case by auto
next
  case (Cons h hs)
  show ?case
  proof
    assume "contains (h # hs) needle"
    then consider "startswith (h # hs) needle" | "contains hs needle" by auto
    then show "\<exists>ps ss. h # hs = ps @ needle @ ss"
    proof cases
      case 1
      then obtain ss where "h # hs = needle @ ss" using startswith_iff by blast
      then have "h # hs = [] @ needle @ ss" by simp
      then show ?thesis by blast
    next
      case 2
      then obtain ps ss where "hs = ps @ needle @ ss" using Cons.IH by blast
      then have "h # hs = (h # ps) @ needle @ ss" by simp
      then show ?thesis by blast
    qed
  next
    assume "\<exists>ps ss. h # hs = ps @ needle @ ss"
    then obtain ps ss where eq: "h # hs = ps @ needle @ ss" by blast
    show "contains (h # hs) needle"
    proof (cases ps)
      case Nil
      then have "startswith (h # hs) needle" using eq startswith_iff by auto
      then show ?thesis by simp
    next
      case (Cons p ps')
      then have "hs = ps' @ needle @ ss" using eq by simp
      then have "contains hs needle" using Cons.IH by blast
      then show ?thesis by simp
    qed
  qed
qed

lemma of_char_char_of_small: "n < 256 \<Longrightarrow> (of_char (char_of n) :: nat) = n"
  by (simp add: of_char_of)

lemma isspace_lower_char: "isspace (lower_char c) = isspace c"
  by (auto simp add: isspace_def lower_char_def Let_def of_char_char_of_small)

lemma split_from_nonempty:
  "cur \<noteq> [] \<or> (\<exists>c\<in>set s. \<not> isspace c) \<Longrightarrow> split_from cur s \<noteq> []"
  by (induction cur s rule: split_from.induct) auto

lemma split_ws_nonempty: "\<exists>c\<in>set s. \<not> isspace c \<Longrightarrow> split_ws s \<noteq> []"
  by (simp add: split_ws_def split_from_nonempty)

lemma strip_blank: "\<forall>c\<in>set s. isspace c \<Longrightarrow> strip s = []"
proof -
  assume "\<forall>c\<in>set s. isspace c"
  then have "dropWhile isspace s = []" by (induction s) auto
  then show ?thesis by (simp only: strip_def rev.simps dropWhile.simps)
qed

lemma strip_last_nonspace: "strip s \<noteq> [] \<Longrightarrow> \<not> isspace (last (strip s))"
proof -
  assume a: "strip s \<noteq> []"
  let ?t = "dropWhile isspace (rev (dropWhile isspace s))"
  from a have ne: "?t \<noteq> []" by (simp add: strip_def)
  then have "\<not> isspace (hd ?t)" by (rule hd_dropWhile)
  moreover have "last (strip s) = hd ?t" using ne by (simp add: strip_def last_rev)
  ultimately show ?thesis by simp
qed

lemma query_tokens_nonempty:
  assumes "lower (strip raw) \<noteq> []"
  shows "split_ws (lower (strip raw)) \<noteq> []"
proof -
  from assms have ne: "strip raw \<noteq> []" by (auto simp add: lower_def)
  then have "\<not> isspace (last (strip raw))" by (rule strip_last_nonspace)
  then have "\<not> isspace (lower_char (last (strip raw)))" by (simp add: isspace_lower_char)
  moreover have "lower_char (last (strip raw)) \<in> set (lower (strip raw))"
    using ne by (simp add: lower_def)
  ultimately show ?thesis using split_ws_nonempty by blast
qed


section \<open>Floats: facts\<close>

lemma round_half_even_bounds: "\<lfloor>x\<rfloor> \<le> round_half_even x \<and> round_half_even x \<le> \<lfloor>x\<rfloor> + 1"
  by (simp add: round_half_even_def Let_def)

lemma round_half_even_of_int: "round_half_even (of_int n) = n"
  by (simp add: round_half_even_def Let_def)

lemma round_half_even_mono:
  assumes "x \<le> y"
  shows "round_half_even x \<le> round_half_even y"
proof (cases "\<lfloor>x\<rfloor> < \<lfloor>y\<rfloor>")
  case True
  have "round_half_even x \<le> \<lfloor>x\<rfloor> + 1" using round_half_even_bounds by blast
  also have "\<dots> \<le> \<lfloor>y\<rfloor>" using True by simp
  also have "\<dots> \<le> round_half_even y" using round_half_even_bounds by blast
  finally show ?thesis .
next
  case False
  have "\<lfloor>x\<rfloor> \<le> \<lfloor>y\<rfloor>" using assms by (rule floor_mono)
  with False have eq: "\<lfloor>x\<rfloor> = \<lfloor>y\<rfloor>" by simp
  have "x - of_int \<lfloor>y\<rfloor> \<le> y - of_int \<lfloor>y\<rfloor>" using assms by simp
  then show ?thesis
    unfolding round_half_even_def Let_def eq by auto
qed

lemma bits_pos: "0 < n \<Longrightarrow> bits n = Suc (bits (n div 2))"
  by (subst bits.simps) simp

lemma bits_bounds: "0 < n \<Longrightarrow> 2 ^ (bits n - 1) \<le> n \<and> n < 2 ^ bits n"
proof (induction n rule: bits.induct)
  case (1 n)
  show ?case
  proof (cases "n div 2 = 0")
    case True
    with "1.prems" have "n = 1" by (simp add: div_eq_0_iff)
    then show ?thesis by (simp add: bits_pos) (simp add: bits.simps)
  next
    case False
    define m where "m = n div 2"
    have m: "0 < m" using False by (simp add: m_def)
    have ih: "2 ^ (bits m - 1) \<le> m \<and> m < 2 ^ bits m"
      using "1.IH" "1.prems" m unfolding m_def by simp
    have bm: "0 < bits m" using m by (simp add: bits_pos)
    have bn: "bits n = Suc (bits m)" using "1.prems" by (simp add: m_def bits_pos)
    have "2 ^ bits m = 2 * 2 ^ (bits m - 1)" using bm by (cases "bits m") simp_all
    also have "\<dots> \<le> 2 * m" using ih by simp
    also have "\<dots> \<le> n" by (simp add: m_def)
    finally have lo: "2 ^ (bits n - 1) \<le> n" by (simp add: bn)
    have "n < 2 * (m + 1)" by (simp add: m_def)
    also have "\<dots> \<le> 2 * 2 ^ bits m" using ih by simp
    finally have hi: "n < 2 ^ bits n" by (simp add: bn)
    from lo hi show ?thesis by blast
  qed
qed

lemma exponent_bounds:
  assumes "0 < a" and "0 < b"
  shows "2 powi (exponent a b) \<le> real a / real b \<and> real a / real b < 2 powi (exponent a b + 1)"
proof -
  define d where "d = int (bits a) - int (bits b)"
  define q where "q = real a / real b"
  from bits_bounds [OF assms(1)] have a1: "2 ^ (bits a - 1) \<le> real a" and a2: "real a < 2 ^ bits a"
    by (metis of_nat_le_iff of_nat_numeral of_nat_power, metis of_nat_less_iff of_nat_numeral of_nat_power)
  from bits_bounds [OF assms(2)] have b1: "2 ^ (bits b - 1) \<le> real b" and b2: "real b < 2 ^ bits b"
    by (metis of_nat_le_iff of_nat_numeral of_nat_power, metis of_nat_less_iff of_nat_numeral of_nat_power)
  have ba: "0 < bits a" and bb: "0 < bits b" using assms by (simp_all add: bits_pos)
  have pa: "(2::real) ^ bits a = 2 powi int (bits a)" by simp
  have pb: "(2::real) ^ bits b = 2 powi int (bits b)" by simp
  have pa1: "(2::real) ^ (bits a - 1) = 2 powi (int (bits a) - 1)"
    using ba by (simp add: power_int_def nat_diff_distrib')
  have pb1: "(2::real) ^ (bits b - 1) = 2 powi (int (bits b) - 1)"
    using bb by (simp add: power_int_def nat_diff_distrib')
  have bpos: "0 < real b" using assms by simp
  have e1: "int (bits a) - (int (bits b) - 1) = d + 1" by (simp add: d_def)
  have e2: "int (bits a) - 1 - int (bits b) = d - 1" by (simp add: d_def)
  have "q < 2 powi int (bits a) / real b"
    unfolding q_def using a2 bpos by (simp add: divide_strict_right_mono)
  also have "\<dots> \<le> 2 powi int (bits a) / 2 powi (int (bits b) - 1)"
    using b1 bpos unfolding pb1 by (intro divide_left_mono) simp_all
  also have "\<dots> = 2 powi (d + 1)"
    unfolding e1 [symmetric] by (rule power_int_diff [symmetric]) simp
  finally have hi: "q < 2 powi (d + 1)" .
  have "(2::real) powi (d - 1) = 2 powi (int (bits a) - 1) / 2 powi int (bits b)"
    unfolding e2 [symmetric] by (rule power_int_diff) simp
  also have "\<dots> \<le> real a / 2 powi int (bits b)"
    using a1 unfolding pa1 by (simp add: divide_right_mono)
  also have "\<dots> < real a / real b"
    using b2 assms unfolding pb by (intro divide_strict_left_mono) simp_all
  finally have lo: "2 powi (d - 1) < q" unfolding q_def .
  show ?thesis
  proof (cases "2 powi d \<le> q")
    case True
    then have "exponent a b = d" by (simp add: exponent_def d_def q_def)
    with True hi show ?thesis by (simp add: q_def)
  next
    case False
    then have "exponent a b = d - 1" by (simp add: exponent_def d_def q_def)
    with False lo show ?thesis by (simp add: q_def)
  qed
qed

lemma scale_mult: "(2::real) powi i * 2 powi j = 2 powi (i + j)"
  by (rule power_int_add [symmetric]) simp

lemma float_div_unfold:
  "0 < a \<Longrightarrow> float_div a b =
     of_int (round_half_even (real a / real b * 2 powi (52 - exponent a b)))
       * 2 powi (exponent a b - 52)"
  by (simp add: float_div_def Let_def)

lemma float_div_range:
  assumes "0 < a" and "0 < b"
  shows "2 powi (exponent a b) \<le> float_div a b \<and> float_div a b \<le> 2 powi (exponent a b + 1)"
proof -
  define e where "e = exponent a b"
  define q where "q = real a / real b"
  define M where "M = round_half_even (q * 2 powi (52 - e))"
  from exponent_bounds [OF assms] have lo: "2 powi e \<le> q" and hi: "q < 2 powi (e + 1)"
    by (simp_all add: e_def q_def)
  have f: "float_div a b = of_int M * 2 powi (e - 52)"
    using assms(1) by (simp add: float_div_unfold M_def e_def q_def)
  have "2 powi e * 2 powi (52 - e) \<le> q * 2 powi (52 - e)"
    using lo by (intro mult_right_mono) simp_all
  then have "of_int (2 ^ 52) \<le> q * 2 powi (52 - e)" by (simp add: scale_mult)
  then have "round_half_even (of_int (2 ^ 52)) \<le> M"
    unfolding M_def by (rule round_half_even_mono)
  then have m1: "2 ^ 52 \<le> M" by (simp only: round_half_even_of_int)
  have "q * 2 powi (52 - e) \<le> 2 powi (e + 1) * 2 powi (52 - e)"
    using hi by (intro mult_right_mono) simp_all
  then have "q * 2 powi (52 - e) \<le> of_int (2 ^ 53)" by (simp add: scale_mult)
  then have "M \<le> round_half_even (of_int (2 ^ 53))"
    unfolding M_def by (rule round_half_even_mono)
  then have m2: "M \<le> 2 ^ 53" by (simp only: round_half_even_of_int)
  have "(2::real) powi e = of_int (2 ^ 52) * 2 powi (e - 52)"
    using scale_mult [of 52 "e - 52"] by simp
  also have "\<dots> \<le> of_int M * 2 powi (e - 52)"
    using m1 by (intro mult_right_mono) simp_all
  finally have a: "2 powi e \<le> float_div a b" by (simp only: f)
  have "of_int M * (2::real) powi (e - 52) \<le> of_int (2 ^ 53) * 2 powi (e - 52)"
    using m2 by (intro mult_right_mono) simp_all
  also have "\<dots> = 2 powi (e + 1)"
    using scale_mult [of 53 "e - 52"] by (simp add: algebra_simps)
  finally have b: "float_div a b \<le> 2 powi (e + 1)" by (simp only: f)
  from a b show ?thesis by (simp only: e_def)
qed

lemma float_div_pos: "0 < a \<Longrightarrow> 0 < b \<Longrightarrow> 0 < float_div a b"
proof -
  assume "0 < a" and "0 < b"
  then have "2 powi (exponent a b) \<le> float_div a b" using float_div_range by blast
  moreover have "(0::real) < 2 powi (exponent a b)" by simp
  ultimately show ?thesis by linarith
qed

lemma float_div_nonneg: "0 \<le> float_div a b"
  by (simp add: float_div_def Let_def round_half_even_def)

lemma float_div_mono:
  assumes "0 < b" and "0 < d" and "real a / real b \<le> real c / real d"
  shows "float_div a b \<le> float_div c d"
proof (cases "a = 0")
  case True
  then have "float_div a b = 0" by (simp add: float_div_def)
  then show ?thesis by (simp add: float_div_nonneg)
next
  case False
  then have a: "0 < a" by simp
  have "0 < real a / real b" using a assms(1) by simp
  then have "0 < real c / real d" using assms(3) by linarith
  then have c: "0 < c" using assms(2) by (cases "c = 0") simp_all
  define e1 where "e1 = exponent a b"
  define e2 where "e2 = exponent c d"
  from exponent_bounds [OF a assms(1)] have l1: "2 powi e1 \<le> real a / real b"
    by (simp add: e1_def)
  from exponent_bounds [OF c assms(2)] have h2: "real c / real d < 2 powi (e2 + 1)"
    by (simp add: e2_def)
  from l1 assms(3) h2 have lt: "(2::real) powi e1 < 2 powi (e2 + 1)" by linarith
  have le: "e1 \<le> e2"
  proof (rule ccontr)
    assume "\<not> e1 \<le> e2"
    then have "e2 + 1 \<le> e1" by simp
    then have "(2::real) powi (e2 + 1) \<le> 2 powi e1" by (rule power_int_increasing) simp
    with lt show False by linarith
  qed
  show ?thesis
  proof (cases "e1 = e2")
    case True
    have "real a / real b * 2 powi (52 - e2) \<le> real c / real d * 2 powi (52 - e2)"
      using assms(3) by (intro mult_right_mono) simp_all
    then have "round_half_even (real a / real b * 2 powi (52 - e2))
        \<le> round_half_even (real c / real d * 2 powi (52 - e2))"
      by (rule round_half_even_mono)
    then have "of_int (round_half_even (real a / real b * 2 powi (52 - e2))) * (2::real) powi (e2 - 52)
        \<le> of_int (round_half_even (real c / real d * 2 powi (52 - e2))) * 2 powi (e2 - 52)"
      by (intro mult_right_mono) simp_all
    then show ?thesis
      using a c True by (simp add: float_div_unfold e1_def e2_def)
  next
    case False
    with le have "e1 + 1 \<le> e2" by simp
    then have "(2::real) powi (e1 + 1) \<le> 2 powi e2" by (rule power_int_increasing) simp
    moreover have "float_div a b \<le> 2 powi (e1 + 1)"
      using float_div_range [OF a assms(1)] by (simp add: e1_def)
    moreover have "2 powi e2 \<le> float_div c d"
      using float_div_range [OF c assms(2)] by (simp add: e2_def)
    ultimately show ?thesis by linarith
  qed
qed

lemma float_div_same: "0 < n \<Longrightarrow> float_div n n = 1"
proof -
  assume n: "0 < n"
  then have q: "real n / real n = 1" by simp
  have "exponent n n = 0" using n by (simp add: exponent_def)
  then show ?thesis using n by (simp add: float_div_unfold round_half_even_def)
qed

lemma float_div_le_1: "0 < b \<Longrightarrow> a \<le> b \<Longrightarrow> float_div a b \<le> 1"
proof -
  assume b: "0 < b" and "a \<le> b"
  then have "real a / real b \<le> real b / real b" by (simp add: divide_right_mono)
  with b have "float_div a b \<le> float_div b b" by (intro float_div_mono) simp_all
  then show ?thesis using b by (simp add: float_div_same)
qed

lemma decimal_mono: "m \<le> n \<Longrightarrow> decimal m k \<le> decimal n k"
  unfolding decimal_def by (rule float_div_mono) (simp_all add: divide_right_mono)

lemma round2_mono: "x \<le> y \<Longrightarrow> round2 x \<le> round2 y"
proof -
  assume "x \<le> y"
  then have "x * 100 \<le> y * 100" by simp
  then have "round_half_even (x * 100) \<le> round_half_even (y * 100)"
    by (rule round_half_even_mono)
  then have "nat (round_half_even (x * 100)) \<le> nat (round_half_even (y * 100))" by simp
  then show ?thesis unfolding round2_def by (rule decimal_mono)
qed

text \<open>The floor 0.05 and 1 are left as they are by the rounding.\<close>

lemma round2_floor: "round2 (decimal 5 2) = decimal 5 2"
  by code_simp

lemma round2_one: "round2 1 = 1"
  by code_simp

lemma decimal_floor_ge: "1 / 20 \<le> decimal 5 2"
  by code_simp

lemma round2_bounds:
  "decimal 5 2 \<le> x \<Longrightarrow> x \<le> 1 \<Longrightarrow> decimal 5 2 \<le> round2 x \<and> round2 x \<le> 1"
  using round2_mono [of "decimal 5 2" x] round2_mono [of x 1]
  by (simp only: round2_floor round2_one)

section \<open>Scoring\<close>

lemma searchable_eq: "searchable d = searchable_text d"
  by (cases "reporting_period d")
     (simp_all add: searchable_def searchable_text_def lower_def)

lemma decimal_floor_le_1: "decimal 5 2 \<le> 1"
  by code_simp

lemma decimal_tenth_bounds: "0 \<le> decimal 10 2 \<and> decimal 10 2 \<le> 1"
  by code_simp

lemma raw_score_overlap:
  "q \<noteq> [] \<Longrightarrow> split_ws q \<noteq> [] \<Longrightarrow> raw_score q text = token_overlap q text"
proof -
  assume "q \<noteq> []" and "split_ws q \<noteq> []"
  then have "max (length (split_ws q)) 1 = length (split_ws q)"
    by (cases "split_ws q") simp_all
  then show ?thesis using \<open>q \<noteq> []\<close> by (simp add: raw_score_def token_overlap_def)
qed

lemma clamp_min_max: "lo \<le> hi \<Longrightarrow> min hi (max x lo) = clamp lo hi x"
  by (simp add: clamp_def min_def max_def)

lemma match_document_spec:
  assumes "q = [] \<or> split_ws q \<noteq> []"
  shows "match_document q d =
    (if qualifies q d then Some (d, reported_score q d) else None)"
proof (cases "q = []")
  case True
  have "min 1 (max 0 (decimal 10 2)) = decimal 10 2"
    using decimal_tenth_bounds by (simp add: min_def max_def)
  then show ?thesis
    using True
    by (simp add: match_document_def qualifies_def reported_score_def raw_score_def)
next
  case False
  with assms have t: "split_ws q \<noteq> []" by simp
  have rs: "raw_score q (searchable_text d) = token_overlap q (searchable_text d)"
    using False t by (rule raw_score_overlap)
  have c: "min 1 (max (token_overlap q (searchable_text d)) (decimal 5 2))
             = clamp (decimal 5 2) 1 (token_overlap q (searchable_text d))"
    using decimal_floor_le_1 by (rule clamp_min_max)
  show ?thesis
    using False
    by (simp add: match_document_def qualifies_def reported_score_def Let_def rs c
        searchable_eq)
qed

lemma match_loop_spec:
  assumes "q = [] \<or> split_ws q \<noteq> []"
  shows "match_loop q ds = map (\<lambda>d. (d, reported_score q d)) (filter (qualifies q) ds)"
  by (induction ds) (simp_all add: match_document_spec [OF assms])

text \<open>
  Claim C2. Let \<open>q\<close> be the query, stripped and in lower case. The searchable text of a
  document is the lower-case text built from issuer, product, document type, language,
  source, file name and reporting period. A document matches an empty \<open>q\<close> with score 0.1.
  For a non-empty \<open>q\<close> the token list is not empty, the raw score is the number of tokens
  of \<open>q\<close> that are substrings of the searchable text divided by the number of tokens, the
  document matches exactly if \<open>q\<close> as a whole is a substring of the searchable text or the
  raw score is positive, and the score of the match is the raw score clamped to the
  interval from 0.05 to 1; otherwise the document is left out. The score meant is the one
  appended to \<open>matches\<close>; a citation carries it rounded to two decimals.
\<close>

theorem query_scoring:
  "let q = map lower_char (strip (query payload));
       documents = filter_documents listed (document_filters payload)
   in (q \<noteq> [] \<longrightarrow> split_ws q \<noteq> []) \<and>
      (\<forall>d. searchable d = searchable_text d) \<and>
      (\<forall>d. match_document q d =
         (if q = [] then Some (d, decimal 10 2)
          else if contains (searchable_text d) q \<or> 0 < token_overlap q (searchable_text d)
          then Some (d, clamp (decimal 5 2) 1 (token_overlap q (searchable_text d)))
          else None)) \<and>
      matches_of listed payload =
        map (\<lambda>d. (d, reported_score q d)) (filter (qualifies q) documents)"
proof -
  define q where "q = map lower_char (strip (query payload))"
  have ql: "q = lower (strip (query payload))" by (simp add: q_def lower_def)
  have t: "q = [] \<or> split_ws q \<noteq> []"
    unfolding ql using query_tokens_nonempty by blast
  have a: "q \<noteq> [] \<longrightarrow> split_ws q \<noteq> []" using t by blast
  have b: "match_document q d =
         (if q = [] then Some (d, decimal 10 2)
          else if contains (searchable_text d) q \<or> 0 < token_overlap q (searchable_text d)
          then Some (d, clamp (decimal 5 2) 1 (token_overlap q (searchable_text d)))
          else None)" for d
    using match_document_spec [OF t, of d] by (simp add: qualifies_def reported_score_def)
  have c: "matches_of listed payload =
        map (\<lambda>d. (d, reported_score q d))
          (filter (qualifies q) (filter_documents listed (document_filters payload)))"
    using match_loop_spec [OF t] by (simp add: matches_of_def ql Let_def)
  show ?thesis
    unfolding Let_def q_def [symmetric]
    by (intro conjI allI a b c searchable_eq)
qed

theorem query_scoring_witness:
  "searchable fund_b
     = ''global investments fund b annual report en upload fund-b-annual.pdf 2023-12-31'' \<and>
   matches_of [fund_b, fund_x] (query_for ''  Fund B  2023 quarterly '' 5)
     = [(fund_b, 3 / 4), (fund_x, 1 / 4)] \<and>
   matches_of [fund_a] (query_for forty_tokens 5)
     = [(fund_a, 3602879701896397 / 72057594037927936)]"
proof -
  let ?p = "query_for ''  Fund B  2023 quarterly '' 5"
  let ?q = "map lower_char (strip (query ?p))"
  let ?p' = "query_for forty_tokens 5"
  let ?q' = "map lower_char (strip (query ?p'))"
  have e1: "searchable_text fund_b
     = ''global investments fund b annual report en upload fund-b-annual.pdf 2023-12-31''"
    by code_simp
  have e2: "map (\<lambda>d. (d, reported_score ?q d))
             (filter (qualifies ?q) (filter_documents [fund_b, fund_x] (document_filters ?p)))
           = [(fund_b, 3 / 4), (fund_x, 1 / 4)]"
    by code_simp
  have e3: "map (\<lambda>d. (d, reported_score ?q' d))
             (filter (qualifies ?q') (filter_documents [fund_a] (document_filters ?p')))
           = [(fund_a, 3602879701896397 / 72057594037927936)]"
    by code_simp
  have s: "searchable fund_b = searchable_text fund_b"
    using query_scoring [of ?p "[fund_b, fund_x]"] unfolding Let_def by (elim conjE allE)
  have m: "matches_of [fund_b, fund_x] ?p =
          map (\<lambda>d. (d, reported_score ?q d))
            (filter (qualifies ?q) (filter_documents [fund_b, fund_x] (document_filters ?p)))"
    using query_scoring [of ?p "[fund_b, fund_x]"] unfolding Let_def by (elim conjE)
  have m': "matches_of [fund_a] ?p' =
          map (\<lambda>d. (d, reported_score ?q' d))
            (filter (qualifies ?q') (filter_documents [fund_a] (document_filters ?p')))"
    using query_scoring [of ?p' "[fund_a]"] unfolding Let_def by (elim conjE)
  show ?thesis
    by (intro conjI) (simp_all only: s e1 m e2 m' e3)
qed

section \<open>Rounding and ranking\<close>

lemma floor_le_tenth: "decimal 5 2 \<le> decimal 10 2"
  by code_simp

lemma match_document_bounds:
  assumes "match_document q d = Some (d', sc)"
  shows "d' = d \<and> decimal 5 2 \<le> sc \<and> sc \<le> 1"
proof -
  define fl where "fl = (if q \<noteq> [] then decimal 5 2 else decimal 10 2)"
  have f: "decimal 5 2 \<le> fl" using floor_le_tenth by (simp add: fl_def)
  from assms have "d' = d" and "sc = min 1 (max (raw_score q (searchable d)) fl)"
    by (auto simp add: match_document_def Let_def fl_def split: if_splits)
  moreover have "decimal 5 2 \<le> min 1 (max (raw_score q (searchable d)) fl)"
    using f decimal_floor_le_1 by (simp add: min_def max_def)
  moreover have "min 1 (max (raw_score q (searchable d)) fl) \<le> 1" by simp
  ultimately show ?thesis by simp
qed

lemma match_loop_bounds:
  "(d, sc) \<in> set (match_loop q ds) \<Longrightarrow> d \<in> set ds \<and> decimal 5 2 \<le> sc \<and> sc \<le> 1"
proof (induction ds)
  case Nil
  then show ?case by simp
next
  case (Cons a ds)
  show ?case
  proof (cases "match_document q a")
    case None
    with Cons show ?thesis by auto
  next
    case (Some m)
    obtain d' sc' where m: "m = (d', sc')" by (cases m)
    from Some m have "d' = a \<and> decimal 5 2 \<le> sc' \<and> sc' \<le> 1"
      using match_document_bounds by blast
    with Cons Some m show ?thesis by auto
  qed
qed

lemma set_slice_to: "set (slice_to xs n) \<subseteq> set xs"
  by (auto simp add: slice_to_def dest: in_set_takeD)

lemma set_sort_matches: "set (sort_matches ms) = set ms"
  by (simp add: sort_matches_def)

lemma mset_sort_matches: "mset (sort_matches ms) = mset ms"
  by (simp add: sort_matches_def)

lemma sorted_sort_matches: "sorted_wrt (\<lambda>a b. snd b \<le> snd a) (sort_matches ms)"
proof -
  have "sorted (map (\<lambda>item. - snd item) (sort_matches ms))"
    unfolding sort_matches_def by (rule sorted_sort_key)
  then show ?thesis by (simp add: sorted_map)
qed

lemma sorted_wrt_take: "sorted_wrt P xs \<Longrightarrow> sorted_wrt P (take n xs)"
  by (metis append_take_drop_id sorted_wrt_append)

lemma citations_answer_documents:
  "citations (answer_documents listed payload elapsed) =
     map snippet (slice_to (sort_matches (matches_of listed payload)) (max_results payload))"
  by (simp add: answer_documents_def Let_def)

lemma score_snippet: "score (snippet m) = round2 (snd m)"
  by (cases m) (simp add: snippet_def)

lemma listed_two_documents:
  "list_documents (one_text_codec two_documents) (Text ''store'') = Inr [fund_b, fund_x]"
  by code_simp

text \<open>
  Claim C9. Whenever \<open>answer\<close> returns a response, the score of every citation lies
  between 0.05 and 1, as floats and as numbers; in particular it is never 0.
\<close>

theorem citation_scores_bounded:
  assumes "query_answer c file payload elapsed = Inr response"
  shows "\<forall>s\<in>set (citations response).
           decimal 5 2 \<le> score s \<and> 0.05 \<le> score s \<and> score s \<le> 1 \<and> score s \<noteq> 0"
proof
  fix s
  assume s: "s \<in> set (citations response)"
  from assms obtain listed where
    r: "response = answer_documents listed payload elapsed"
    by (auto simp add: query_answer_def split: sum.splits)
  from s r obtain m where
    m: "m \<in> set (slice_to (sort_matches (matches_of listed payload)) (max_results payload))"
    and sm: "s = snippet m"
    by (auto simp add: citations_answer_documents)
  from m have "m \<in> set (sort_matches (matches_of listed payload))"
    using set_slice_to by (rule rev_subsetD)
  then have "m \<in> set (matches_of listed payload)"
    by (simp only: set_sort_matches)
  then have "(fst m, snd m) \<in> set (match_loop (lower (strip (query payload)))
      (filter_documents listed (document_filters payload)))"
    by (simp add: matches_of_def Let_def)
  then have "decimal 5 2 \<le> snd m \<and> snd m \<le> 1" by (rule match_loop_bounds [THEN conjunct2])
  then have b1: "decimal 5 2 \<le> snd m" and b2: "snd m \<le> 1" by (rule conjunct1, rule conjunct2)
  from b1 b2 have "decimal 5 2 \<le> round2 (snd m) \<and> round2 (snd m) \<le> 1"
    by (rule round2_bounds)
  then have "decimal 5 2 \<le> score s" and u: "score s \<le> 1"
    using sm by (simp_all add: score_snippet)
  moreover from this have l: "0.05 \<le> score s" using decimal_floor_ge by simp
  ultimately show "decimal 5 2 \<le> score s \<and> 0.05 \<le> score s \<and> score s \<le> 1 \<and> score s \<noteq> 0"
    by simp
qed

theorem citation_scores_bounded_witness:
  "list_all (\<lambda>s. decimal 5 2 \<le> score s \<and> 0.05 \<le> score s \<and> score s \<le> 1 \<and> score s \<noteq> 0)
     (citations (answer_documents [fund_b, fund_x] (query_for forty_tokens 5) 0)) \<and>
   map score (citations (answer_documents [fund_b, fund_x] (query_for forty_tokens 5) 0))
     = [1261007895663739 / 18014398509481984, 3602879701896397 / 72057594037927936]"
proof -
  have "query_answer (one_text_codec two_documents) (Text ''store'') (query_for forty_tokens 5) 0
          = Inr (answer_documents [fund_b, fund_x] (query_for forty_tokens 5) 0)"
    by (simp add: query_answer_def listed_two_documents)
  then have "list_all
     (\<lambda>s. decimal 5 2 \<le> score s \<and> 0.05 \<le> score s \<and> score s \<le> 1 \<and> score s \<noteq> 0)
     (citations (answer_documents [fund_b, fund_x] (query_for forty_tokens 5) 0))"
    using citation_scores_bounded by (simp only: list_all_iff)
  moreover have
    "map score (citations (answer_documents [fund_b, fund_x] (query_for forty_tokens 5) 0))
       = [1261007895663739 / 18014398509481984, 3602879701896397 / 72057594037927936]"
    by code_simp
  ultimately show ?thesis by (rule conjI)
qed

lemma match_loop_empty_query: "match_loop [] ds = map (\<lambda>d. (d, decimal 10 2)) ds"
proof -
  have "min 1 (max 0 (decimal 10 2)) = decimal 10 2"
    using decimal_tenth_bounds by (simp add: min_def max_def)
  then show ?thesis
    by (induction ds) (simp_all add: match_document_def raw_score_def)
qed

text \<open>
  Claim C10. A query of whitespace characters only is treated as the empty query: every
  document that passes the filters matches with score 0.1, whatever its searchable text,
  and the response is that of the empty query.
\<close>

theorem whitespace_query:
  assumes "\<forall>ch\<in>set (query payload). isspace ch"
  shows "matches_of listed payload =
           map (\<lambda>d. (d, decimal 10 2)) (filter_documents listed (document_filters payload)) \<and>
         answer_documents listed payload elapsed =
           answer_documents listed (payload\<lparr>query := []\<rparr>) elapsed"
proof -
  from assms have q: "lower (strip (query payload)) = []"
    by (simp add: strip_blank lower_def)
  have e: "lower (strip []) = []" by (simp add: strip_def lower_def)
  have m: "matches_of listed payload = matches_of listed (payload\<lparr>query := []\<rparr>)"
    by (simp add: matches_of_def q e)
  have "matches_of listed payload =
           map (\<lambda>d. (d, decimal 10 2)) (filter_documents listed (document_filters payload))"
    by (simp add: matches_of_def q match_loop_empty_query)
  moreover have "answer_documents listed payload elapsed =
           answer_documents listed (payload\<lparr>query := []\<rparr>) elapsed"
    by (simp add: answer_documents_def m)
  ultimately show ?thesis by blast
qed

theorem whitespace_query_witness:
  "matches_of [fund_b, fund_x] (query_for [CHR '' '', CHR 0x09, CHR '' ''] 5)
     = [(fund_b, 3602879701896397 / 36028797018963968),
        (fund_x, 3602879701896397 / 36028797018963968)]"
proof -
  have d: "decimal 10 2 = 3602879701896397 / 36028797018963968"
    by code_simp
  have "\<forall>ch\<in>set (query (query_for [CHR '' '', CHR 0x09, CHR '' ''] 5)). isspace ch"
    by (simp add: query_for_def isspace_def)
  then show ?thesis
    using whitespace_query [of "query_for [CHR '' '', CHR 0x09, CHR '' ''] 5" "[fund_b, fund_x]"]
    by (simp add: query_for_def filter_documents_def d)
qed

lemma slice_to_Nil: "slice_to [] n = []"
  by (simp add: slice_to_def)

lemma sort_matches_Nil: "sort_matches [] = []"
  by (simp add: sort_matches_def)

text \<open>
  Claim C7. When the registry lists its documents and none of those that pass the filters
  qualifies for the query (as when the filters exclude every document), the response
  carries the fixed message and no citation.
\<close>

theorem no_match_response:
  assumes "list_documents c file = Inr listed"
    and "\<forall>d\<in>set (filter_documents listed (document_filters payload)).
           \<not> qualifies (lower (strip (query payload))) d"
  shows "query_answer c file payload elapsed =
           Inr \<lparr>answer = no_match_message, citations = [],
                latency_ms = max 1 (py_int (elapsed * 1000))\<rparr>"
proof -
  let ?q = "lower (strip (query payload))"
  have t: "?q = [] \<or> split_ws ?q \<noteq> []" using query_tokens_nonempty by blast
  have "matches_of listed payload =
          map (\<lambda>d. (d, reported_score ?q d))
            (filter (qualifies ?q) (filter_documents listed (document_filters payload)))"
    using match_loop_spec [OF t] by (simp add: matches_of_def Let_def)
  also have "filter (qualifies ?q) (filter_documents listed (document_filters payload)) = []"
    using assms(2) by (simp add: filter_empty_conv)
  finally have "matches_of listed payload = []" by simp
  then have "answer_documents listed payload elapsed =
      \<lparr>answer = no_match_message, citations = [], latency_ms = max 1 (py_int (elapsed * 1000))\<rparr>"
    by (simp add: answer_documents_def slice_to_Nil sort_matches_Nil)
  then show ?thesis using assms(1) by (simp add: query_answer_def)
qed

theorem no_match_response_witness:
  "query_answer (one_text_codec two_documents) (Text ''store'') (query_for ''zebra'' 5) 0
     = Inr \<lparr>answer = no_match_message, citations = [], latency_ms = 1\<rparr>"
proof -
  have "list_all (\<lambda>d. \<not> qualifies (lower (strip (query (query_for ''zebra'' 5)))) d)
          (filter_documents [fund_b, fund_x] (document_filters (query_for ''zebra'' 5)))"
    by code_simp
  then have "\<forall>d\<in>set (filter_documents [fund_b, fund_x] (document_filters (query_for ''zebra'' 5))).
          \<not> qualifies (lower (strip (query (query_for ''zebra'' 5)))) d"
    by (simp only: list_all_iff)
  with listed_two_documents
  have "query_answer (one_text_codec two_documents) (Text ''store'') (query_for ''zebra'' 5) 0
     = Inr \<lparr>answer = no_match_message, citations = [],
            latency_ms = max 1 (py_int (0 * 1000))\<rparr>"
    by (rule no_match_response)
  then show ?thesis by (simp add: py_int_def)
qed

text \<open>
  Claim C6. For \<open>max_results\<close> at least 1: the matches are the qualifying documents, in the
  order of the listing; they are put in descending order of score (a permutation); the
  citations are those of the first \<open>max_results\<close> of them, each holding the id, issuer,
  product and file name of its document and the score rounded to two decimals, so there
  are at most \<open>max_results\<close> of them, in descending order of score; with \<open>max_results = 1\<close>
  and a qualifying document there is exactly one citation, that of a match of highest
  score.
\<close>

theorem ranking:
  assumes "1 \<le> max_results payload"
  shows "let q = map lower_char (strip (query payload));
             documents = filter_documents listed (document_filters payload);
             ms = matches_of listed payload;
             ranked = sort_matches ms;
             cite = (\<lambda>m.
               \<lparr>QueryResultSnippet.document_id =
                  (case DocumentIngestionRequest.document_id (fst m) of
                     None \<Rightarrow> ''unknown'' | Some i \<Rightarrow> if i = [] then ''unknown'' else i),
                section_heading = Some ''Metadata'',
                page = None,
                excerpt = ''Issuer: '' @ issuer (fst m) @ ''. Product: '' @ product (fst m)
                          @ ''. Filename: '' @ filename (fst m) @ ''.'',
                score = round2 (snd m)\<rparr>);
             cs = citations (answer_documents listed payload elapsed)
         in map fst ms = filter (qualifies q) documents \<and>
            mset ranked = mset ms \<and>
            sorted_wrt (\<lambda>a b. snd b \<le> snd a) ranked \<and>
            cs = map cite (take (nat (max_results payload)) ranked) \<and>
            length cs = min (nat (max_results payload)) (length ms) \<and>
            sorted_wrt (\<lambda>a b. score b \<le> score a) cs \<and>
            (max_results payload = 1 \<and> ms \<noteq> [] \<longrightarrow>
               (\<exists>m\<in>set ms. cs = [cite m] \<and> (\<forall>m'\<in>set ms. snd m' \<le> snd m)))"
proof -
  let ?cite = "\<lambda>m.
               \<lparr>QueryResultSnippet.document_id =
                  (case DocumentIngestionRequest.document_id (fst m) of
                     None \<Rightarrow> ''unknown'' | Some i \<Rightarrow> if i = [] then ''unknown'' else i),
                section_heading = Some ''Metadata'',
                page = None,
                excerpt = ''Issuer: '' @ issuer (fst m) @ ''. Product: '' @ product (fst m)
                          @ ''. Filename: '' @ filename (fst m) @ ''.'',
                score = round2 (snd m)\<rparr>"
  define q where "q = map lower_char (strip (query payload))"
  define documents where "documents = filter_documents listed (document_filters payload)"
  define ms where "ms = matches_of listed payload"
  define ranked where "ranked = sort_matches ms"
  define cs where "cs = citations (answer_documents listed payload elapsed)"
  define n where "n = nat (max_results payload)"
  have sn: "snippet = ?cite"
    by (rule ext) (simp add: snippet_def id_or_unknown_def split: prod.splits)
  have ql: "q = lower (strip (query payload))" by (simp add: q_def lower_def)
  have t: "q = [] \<or> split_ws q \<noteq> []"
    unfolding ql using query_tokens_nonempty by blast
  have "ms = map (\<lambda>d. (d, reported_score q d)) (filter (qualifies q) documents)"
    using match_loop_spec [OF t] by (simp add: ms_def matches_of_def ql Let_def documents_def)
  then have z: "map fst ms = filter (qualifies q) documents" by (simp add: comp_def)
  have a: "mset ranked = mset ms" by (simp add: ranked_def mset_sort_matches)
  have b: "sorted_wrt (\<lambda>a b. snd b \<le> snd a) ranked"
    by (simp add: ranked_def sorted_sort_matches)
  have "cs = map snippet (take n ranked)"
    using assms by (simp add: cs_def citations_answer_documents slice_to_def ranked_def ms_def n_def)
  then have c: "cs = map ?cite (take n ranked)" by (simp only: sn)
  have "length ranked = length ms" using a by (metis size_mset)
  then have d: "length cs = min n (length ms)" using c by simp
  have "sorted_wrt (\<lambda>a b. snd b \<le> snd a) (take n ranked)" using b by (rule sorted_wrt_take)
  then have "sorted_wrt (\<lambda>a b. round2 (snd b) \<le> round2 (snd a)) (take n ranked)"
    by (rule sorted_wrt_mono_rel [rotated]) (simp add: round2_mono)
  then have e: "sorted_wrt (\<lambda>a b. score b \<le> score a) cs"
    by (simp add: c sorted_wrt_map)
  have f: "\<exists>m\<in>set ms. cs = [?cite m] \<and> (\<forall>m'\<in>set ms. snd m' \<le> snd m)"
    if one: "max_results payload = 1" and ne: "ms \<noteq> []"
  proof -
    from ne have "ranked \<noteq> []" using a by (metis mset_zero_iff)
    then obtain m rest where r: "ranked = m # rest" by (cases ranked) auto
    have s: "set ranked = set ms" using a by (metis set_mset_mset)
    have "cs = [?cite m]" using c r one by (simp add: n_def)
    moreover have "m \<in> set ms" using r s by auto
    moreover have "\<forall>m'\<in>set ms. snd m' \<le> snd m" using b r s by auto
    ultimately show ?thesis by blast
  qed
  show ?thesis
    unfolding Let_def q_def [symmetric] documents_def [symmetric] ms_def [symmetric]
      ranked_def [symmetric] cs_def [symmetric] n_def [symmetric]
  proof (intro conjI impI)
    show "map fst ms = filter (qualifies q) documents" by (rule z)
    show "mset ranked = mset ms" by (rule a)
    show "sorted_wrt (\<lambda>a b. snd b \<le> snd a) ranked" by (rule b)
    show "cs = map ?cite (take n ranked)" by (rule c)
    show "length cs = min n (length ms)" by (rule d)
    show "sorted_wrt (\<lambda>a b. score b \<le> score a) cs" by (rule e)
    show "\<exists>m\<in>set ms. cs = [?cite m] \<and> (\<forall>m'\<in>set ms. snd m' \<le> snd m)"
      if "max_results payload = 1 \<and> ms \<noteq> []"
      using that f by blast
  qed
qed

theorem ranking_witness:
  "citations (answer_documents [fund_a, fund_b, fund_x] (query_for ''Fund B'' 1) 0)
     = [\<lparr>QueryResultSnippet.document_id = ''doc-b'', section_heading = Some ''Metadata'',
         page = None,
         excerpt = ''Issuer: Global Investments. Product: Fund B. Filename: fund-b-annual.pdf.'',
         score = 1\<rparr>]"
proof -
  let ?p = "query_for ''Fund B'' 1"
  let ?cite = "\<lambda>m.
               \<lparr>QueryResultSnippet.document_id =
                  (case DocumentIngestionRequest.document_id (fst m) of
                     None \<Rightarrow> ''unknown'' | Some i \<Rightarrow> if i = [] then ''unknown'' else i),
                section_heading = Some ''Metadata'',
                page = None,
                excerpt = ''Issuer: '' @ issuer (fst m) @ ''. Product: '' @ product (fst m)
                          @ ''. Filename: '' @ filename (fst m) @ ''.'',
                score = round2 (snd m)\<rparr>"
  have e: "map ?cite (take (nat (max_results ?p))
             (sort_matches (matches_of [fund_a, fund_b, fund_x] ?p)))
       = [\<lparr>QueryResultSnippet.document_id = ''doc-b'', section_heading = Some ''Metadata'',
           page = None,
           excerpt = ''Issuer: Global Investments. Product: Fund B. Filename: fund-b-annual.pdf.'',
           score = 1\<rparr>]"
    by code_simp
  have h: "1 \<le> max_results ?p" by (simp add: query_for_def)
  have "citations (answer_documents [fund_a, fund_b, fund_x] ?p 0) =
      map ?cite (take (nat (max_results ?p)) (sort_matches (matches_of [fund_a, fund_b, fund_x] ?p)))"
    using ranking [OF h, of "[fund_a, fund_b, fund_x]" 0] unfolding Let_def by (elim conjE)
  then show ?thesis using e by (rule trans)
qed

section \<open>Filtering and alerts\<close>

lemma filter_value_field_text:
  "filter_value (model_dump d) key =
     (if key \<in> null_fields d then ''None'' else field_text d key)"
  by (cases "DocumentIngestionRequest.document_id d"; cases "reporting_period d";
      cases "content_url d")
     (simp_all add: filter_value_def model_dump_def field_text_def opt_json_def
        absent_as_empty_def null_fields_def)

lemma all_filters_passes:
  "\<forall>(key, val)\<in>set fs. key \<notin> null_fields d \<Longrightarrow>
     all_filters (model_dump d) fs = passes_filters fs d"
  by (induction fs) (auto simp add: passes_filters_def filter_value_field_text split: if_splits)

lemma filter_loop_filter:
  "\<forall>d\<in>set ds. \<forall>(key, val)\<in>set fs. key \<notin> null_fields d \<Longrightarrow>
     filter_loop fs ds = filter (passes_filters fs) ds"
  by (induction ds) (simp_all add: all_filters_passes)

text \<open>
  On documents whose filtered fields all hold a value, the code keeps exactly the
  documents for which every filter value equals the field of its name, both in lower
  case; a name that is no field compares as the empty string.
\<close>

lemma filtering_present_fields:
  assumes "filters \<noteq> []"
    and "\<forall>d\<in>set documents. \<forall>(key, val)\<in>set filters. key \<notin> null_fields d"
  shows "filter_documents documents (Some filters) =
           filter (\<lambda>d. \<forall>(key, val)\<in>set filters. lower (field_text d key) = lower val) documents"
proof -
  have "passes_filters filters = (\<lambda>d. \<forall>(key, val)\<in>set filters. lower (field_text d key) = lower val)"
    by (rule ext) (simp add: passes_filters_def list_all_iff)
  then show ?thesis
    using assms by (simp add: filter_documents_def filter_loop_filter)
qed

text \<open>
  Claim C3. The claim fails on a field that holds no value. The code compares
  \<open>str(doc_data.get(key, ""))\<close>, and the serialized record has a key for every field, so
  the default \<open>""\<close> is used for a name that is no field only, and a null field is compared
  as the text \<open>None\<close>. \<open>fund_a\<close> has no reporting period: the filter \<open>reporting_period = ""\<close>
  should keep it and the code drops it; the filter \<open>reporting_period = "none"\<close> should drop
  it and the code keeps it.
\<close>

theorem filtering_null_field:
  "filter_documents [fund_a, fund_b] (Some [(''reporting_period'', [])]) = [] \<and>
   filter (passes_filters [(''reporting_period'', [])]) [fund_a, fund_b] = [fund_a] \<and>
   filter_documents [fund_a, fund_b] (Some [(''reporting_period'', ''none'')]) = [fund_a] \<and>
   filter (passes_filters [(''reporting_period'', ''none'')]) [fund_a, fund_b] = []"
  by code_simp

lemma alerts_loop_concat:
  "alerts_loop now acc ds = acc @ concat (map (alerts_for now) ds)"
  by (induction ds arbitrary: acc) (simp_all add: alerts_for_def Let_def verified_languages_def)

lemma rule_id_missing: "rule_id (missing_period_alert now d) = ''missing_reporting_period''"
  by (simp add: missing_period_alert_def)

lemma rule_id_unverified: "rule_id (unverified_language_alert now d) = ''unverified_language''"
  by (simp add: unverified_language_alert_def)

lemma count_missing:
  "length (filter (\<lambda>a. rule_id a = ''missing_reporting_period'') (concat (map (alerts_for now) ds)))
     = length (filter (\<lambda>d. reporting_period d = None) ds)"
  by (induction ds) (simp_all add: alerts_for_def rule_id_missing rule_id_unverified)

lemma count_unverified:
  "length (filter (\<lambda>a. rule_id a = ''unverified_language'') (concat (map (alerts_for now) ds)))
     = length (filter (\<lambda>d. lower (language d) \<notin> {''en'', ''es'', ''fr'', ''de'', ''it'', ''zh''}) ds)"
  by (induction ds) (simp_all add: alerts_for_def rule_id_missing rule_id_unverified)

lemma alerts_for_fields:
  "a \<in> set (alerts_for now d) \<Longrightarrow>
     ComplianceAlert.status a = New \<and> assignee a = None \<and> created_at a = now \<and>
     ComplianceAlert.document_id a = id_or_unknown (DocumentIngestionRequest.document_id d) \<and>
     ((rule_id a = ''missing_reporting_period'' \<and> severity a = Medium \<and>
       alert_id a = format_opt (DocumentIngestionRequest.document_id d) @ ''-missing-reporting-period'') \<or>
      (rule_id a = ''unverified_language'' \<and> severity a = Low \<and>
       alert_id a = format_opt (DocumentIngestionRequest.document_id d) @ ''-unverified-language''))"
  by (auto simp add: alerts_for_def missing_period_alert_def unverified_language_alert_def
      split: if_splits)

text \<open>
  Claim C4. When the registry lists its documents, \<open>list_alerts\<close> returns the alerts of
  each document in turn and their number as total. There are as many alerts of rule
  \<open>missing_reporting_period\<close> as documents without a reporting period and as many of rule
  \<open>unverified_language\<close> as documents whose language in lower case is outside the verified
  set, so a document gives one alert for each rule it violates and two when it violates
  both. Every alert has status new, no assignee, the evaluation time, the severity of its
  rule (medium, low) and an alert id made of the document id and the name of the rule.
\<close>

theorem compliance_alerts:
  assumes "list_documents c file = Inr documents"
  shows "let found = concat (map (alerts_for now) documents) in
     list_alerts c file now = Inr \<lparr>alerts = found, total = int (length found)\<rparr> \<and>
     length (filter (\<lambda>a. rule_id a = ''missing_reporting_period'') found)
       = length (filter (\<lambda>d. reporting_period d = None) documents) \<and>
     length (filter (\<lambda>a. rule_id a = ''unverified_language'') found)
       = length (filter (\<lambda>d. lower (language d) \<notin> {''en'', ''es'', ''fr'', ''de'', ''it'', ''zh''}) documents) \<and>
     (\<forall>d. length (alerts_for now d)
            = (if reporting_period d = None then 1 else 0)
              + (if lower (language d) \<notin> {''en'', ''es'', ''fr'', ''de'', ''it'', ''zh''} then 1 else 0) \<and>
          (\<forall>a\<in>set (alerts_for now d).
             ComplianceAlert.status a = New \<and> assignee a = None \<and> created_at a = now \<and>
             ComplianceAlert.document_id a
               = id_or_unknown (DocumentIngestionRequest.document_id d) \<and>
             ((rule_id a = ''missing_reporting_period'' \<and> severity a = Medium \<and>
               alert_id a = format_opt (DocumentIngestionRequest.document_id d)
                              @ ''-missing-reporting-period'') \<or>
              (rule_id a = ''unverified_language'' \<and> severity a = Low \<and>
               alert_id a = format_opt (DocumentIngestionRequest.document_id d)
                              @ ''-unverified-language''))))"
proof -
  have a: "list_alerts c file now =
      Inr \<lparr>alerts = concat (map (alerts_for now) documents),
           total = int (length (concat (map (alerts_for now) documents)))\<rparr>"
    using assms by (simp add: list_alerts_def alerts_loop_concat Let_def)
  have b: "length (alerts_for now d)
            = (if reporting_period d = None then 1 else 0)
              + (if lower (language d) \<notin> {''en'', ''es'', ''fr'', ''de'', ''it'', ''zh''} then 1 else 0)" for d
    by (simp add: alerts_for_def)
  show ?thesis
    unfolding Let_def
    by (intro conjI allI ballI a count_missing count_unverified b alerts_for_fields)
qed

theorem compliance_alerts_witness:
  "list_alerts (one_text_codec two_documents) (Text ''store'') (Datetime ''2024-02-01T09:00:00'')
     = Inr \<lparr>alerts = [missing_period_alert (Datetime ''2024-02-01T09:00:00'') fund_x,
                      unverified_language_alert (Datetime ''2024-02-01T09:00:00'') fund_x],
            total = 2\<rparr>"
proof -
  let ?now = "Datetime ''2024-02-01T09:00:00''"
  have e: "concat (map (alerts_for ?now) [fund_b, fund_x])
             = [missing_period_alert ?now fund_x, unverified_language_alert ?now fund_x]"
    by code_simp
  have "list_alerts (one_text_codec two_documents) (Text ''store'') ?now =
      Inr \<lparr>alerts = concat (map (alerts_for ?now) [fund_b, fund_x]),
           total = int (length (concat (map (alerts_for ?now) [fund_b, fund_x])))\<rparr>"
    using compliance_alerts [OF listed_two_documents, of ?now] unfolding Let_def
    by (elim conjE)
  then show ?thesis unfolding e by simp
qed


section \<open>Dates and validation: facts\<close>

lemma digit_val_table:
  assumes "k < 10"
  shows "digit_val (''0123456789'' ! k) = Some k"
proof -
  from assms have "k = 0 \<or> k = 1 \<or> k = 2 \<or> k = 3 \<or> k = 4 \<or> k = 5 \<or> k = 6 \<or> k = 7
    \<or> k = 8 \<or> k = 9"
    by arith
  then show ?thesis
    by (elim disjE) (simp_all add: digit_val_def)
qed

lemma digit_val_digit_char: "digit_val (digit_char n) = Some (n mod 10)"
  unfolding digit_char_def by (rule digit_val_table) simp

lemma number_from_append:
  "number_from acc (xs @ ys) =
     (case number_from acc xs of None \<Rightarrow> None | Some a \<Rightarrow> number_from a ys)"
  by (induction xs arbitrary: acc) (simp_all split: option.splits)

lemma number_from_digits: "number_from 0 (digits n) = Some n"
proof (induction n rule: digits.induct)
  case (1 n)
  show ?case
  proof (cases "n < 10")
    case True
    then show ?thesis by (simp add: digit_val_digit_char)
  next
    case False
    then have "digits n = digits (n div 10) @ [digit_char (n mod 10)]" by simp
    then have "number_from 0 (digits n) = number_from (n div 10) [digit_char (n mod 10)]"
      using "1.IH" [OF False] by (simp only: number_from_append option.case)
    then show ?thesis by (simp add: digit_val_digit_char del: digits.simps)
  qed
qed

lemma number_from_zeros: "number_from 0 (replicate k CHR ''0'' @ s) = number_from 0 s"
  by (induction k) (simp_all add: digit_val_def)

lemma number_from_zero_padded: "number_from 0 (zero_padded w n) = Some n"
  by (simp only: zero_padded_def number_from_zeros number_from_digits)

lemma length_digits: "n < 10 ^ k \<Longrightarrow> 0 < k \<Longrightarrow> length (digits n) \<le> k"
proof (induction n arbitrary: k rule: digits.induct)
  case (1 n)
  show ?case
  proof (cases "n < 10")
    case True
    then show ?thesis using "1.prems" by simp
  next
    case False
    then obtain j where k: "k = Suc j" using "1.prems" by (cases k) auto
    from False "1.prems" have "0 < j" unfolding k by (cases j) auto
    moreover from "1.prems" have "n div 10 < 10 ^ j"
      unfolding k by (simp add: less_mult_imp_div_less mult.commute)
    ultimately have "length (digits (n div 10)) \<le> j" using "1.IH" [OF False] by blast
    moreover have "digits n = digits (n div 10) @ [digit_char (n mod 10)]" using False by simp
    ultimately show ?thesis unfolding k by simp
  qed
qed

lemma length_zero_padded: "n < 10 ^ w \<Longrightarrow> 0 < w \<Longrightarrow> length (zero_padded w n) = w"
  using length_digits [of n w] by (simp add: zero_padded_def del: digits.simps)

lemma days_in_month_le: "days_in_month y m \<le> 31"
  by (simp add: days_in_month_def)

lemma parse_date_isoformat:
  assumes "valid_date d"
  shows "parse_date (date_isoformat d) = Some d"
proof -
  define Y where "Y = zero_padded 4 (year d)"
  define M where "M = zero_padded 2 (month d)"
  define D where "D = zero_padded 2 (day d)"
  from assms have "day d \<le> days_in_month (year d) (month d)" by (simp add: valid_date_def)
  then have dd: "day d < 10 ^ 2" using days_in_month_le [of "year d" "month d"] by simp
  from assms have y: "year d < 10 ^ 4" and m: "month d < 10 ^ 2"
    by (simp_all add: valid_date_def)
  have ly: "length Y = 4" unfolding Y_def using y by (rule length_zero_padded) simp
  have lm: "length M = 2" unfolding M_def using m by (rule length_zero_padded) simp
  have ld: "length D = 2" unfolding D_def using dd by (rule length_zero_padded) simp
  have iso: "date_isoformat d = Y @ CHR ''-'' # M @ CHR ''-'' # D"
    by (simp add: date_isoformat_def Y_def M_def D_def)
  have n: "number_from 0 Y = Some (year d)" "number_from 0 M = Some (month d)"
    "number_from 0 D = Some (day d)"
    by (simp_all only: Y_def M_def D_def number_from_zero_padded)
  have r: "\<lparr>year = year d, month = month d, day = day d\<rparr> = d" by simp
  show ?thesis
    unfolding iso parse_date_def
    using assms by (simp add: ly lm ld n r nth_append)
qed

lemma parse_source_str: "parse_source (source_str s) = Some s"
  by (cases s) (simp_all add: parse_source_def)

lemma validate_fields_dump:
  assumes "valid_request r"
  shows "validate_fields (model_dump r) = Some r"
proof -
  have cu: "(case content_url r of None \<Rightarrow> Some None
             | Some u \<Rightarrow> if is_http_url u then Some (Some u) else None)
            = Some (content_url r)"
    using assms by (cases "content_url r") (simp_all add: valid_request_def)
  have o: "optional_str (model_dump r) ''document_id'' = Some (DocumentIngestionRequest.document_id r)"
    "optional_str (model_dump r) ''reporting_period''
       = Some (map_option date_isoformat (reporting_period r))"
    "optional_str (model_dump r) ''content_url'' = Some (content_url r)"
    by (simp_all add: optional_str_def model_dump_def opt_json_def split: option.splits)
  have q: "required_str (model_dump r) ''tenant_id'' = Some (tenant_id r)"
    "required_str (model_dump r) ''issuer'' = Some (issuer r)"
    "required_str (model_dump r) ''product'' = Some (product r)"
    "required_str (model_dump r) ''document_type'' = Some (document_type r)"
    "required_str (model_dump r) ''filename'' = Some (filename r)"
    by (simp_all add: required_str_def model_dump_def)
  have f: "default_str (model_dump r) ''language'' ''en'' = Some (language r)"
    "default_str (model_dump r) ''source'' ''upload'' = Some (source_str (source r))"
    "default_int (model_dump r) ''version'' 1 = Some (version r)"
    by (simp_all add: default_str_def default_int_def model_dump_def)
  show ?thesis
    unfolding validate_fields_def
    using assms
    by (cases "reporting_period r")
      (simp_all add: o q f cu parse_source_str valid_request_def parse_date_isoformat)
qed

text \<open>
  A record is built by validation: the result is a record the registry can be handed, and
  a missing language, source or version takes its declared default.
\<close>

lemma parse_date_valid: "parse_date s = Some d \<Longrightarrow> valid_date d"
  by (auto simp add: parse_date_def Let_def split: if_splits option.splits)

lemma validate_fields_defaults:
  assumes "validate_fields d = Some r"
  shows "(map_of d ''language'' = None \<longrightarrow> language r = ''en'') \<and>
         (map_of d ''source'' = None \<longrightarrow> source r = Upload) \<and>
         (map_of d ''version'' = None \<longrightarrow> version r = 1)"
  using assms
  by (auto simp add: validate_fields_def default_str_def default_int_def parse_source_def
      split: Option.bind_splits)

lemma validate_fields_valid:
  assumes "validate_fields d = Some r"
  shows "valid_request r"
  using assms
  by (auto simp add: validate_fields_def valid_request_def parse_date_valid
      split: Option.bind_splits option.splits if_splits)

lemma validate_request_body:
  "validate_fields
     [(''tenant_id'', JStr ''t1''), (''issuer'', JStr ''Acme''), (''product'', JStr ''Fund A''),
      (''document_type'', JStr ''factsheet''), (''filename'', JStr ''a.pdf'')] = Some fund_a"
  by code_simp

lemma validate_fields_cong:
  "map_of d = map_of d' \<Longrightarrow> validate_fields d = validate_fields d'"
  by (simp add: validate_fields_def optional_str_def required_str_def default_str_def
      default_int_def)

lemma map_of_filter_key: "map_of xs k = map_of (filter (\<lambda>p. fst p = k) xs) k"
  by (induction xs) auto

lemma map_of_sort_key: "map_of (sort_key fst xs) = map_of xs"
proof
  fix k
  have "map_of (sort_key fst xs) k = map_of (filter (\<lambda>p. fst p = k) (sort_key fst xs)) k"
    by (rule map_of_filter_key)
  also have "filter (\<lambda>p. fst p = k) (sort_key fst xs) = filter (\<lambda>p. fst p = k) xs"
    by (rule sort_key_stable)
  also have "map_of (filter (\<lambda>p. fst p = k) xs) k = map_of xs k"
    by (rule map_of_filter_key [symmetric])
  finally show "map_of (sort_key fst xs) k = map_of xs k" .
qed

lemma map_of_map_values:
  "map_of (map (\<lambda>(k, v). (k, f v)) xs) k = map_option f (map_of xs k)"
  by (induction xs) auto

lemma map_of_dict_set: "map_of (dict_set kvs k v) k = Some v"
  by (induction kvs) auto

lemma map_of_dict_set_other: "k' \<noteq> k \<Longrightarrow> map_of (dict_set kvs k v) k' = map_of kvs k'"
  by (induction kvs) auto

lemma sort_keys_dump: "map (\<lambda>(k, v). (k, sort_keys v)) (model_dump r) = model_dump r"
  by (simp add: model_dump_def opt_json_def split: option.splits)

lemma model_validate_sorted:
  assumes "valid_request r"
  shows "model_validate (sort_keys (JObj (model_dump r))) = Inr r"
proof -
  have "validate_fields (sort_key fst (model_dump r)) = validate_fields (model_dump r)"
    by (rule validate_fields_cong) (rule map_of_sort_key)
  then show ?thesis
    using validate_fields_dump [OF assms] by (simp add: model_validate_def sort_keys_dump)
qed

lemma stored_document_payload:
  assumes "valid_request r"
  shows "stored_document (sort_keys (document_payload created r)) = Inr r"
    and "truthy (sort_keys (document_payload created r))"
proof -
  let ?items = "[(''created_at'', JStr (datetime_isoformat created)),
                 (''document'', sort_keys (JObj (model_dump r)))]"
  have s: "sort_keys (document_payload created r) = JObj (sort_key fst ?items)"
    by (simp add: document_payload_def)
  have "map_of (sort_key fst ?items) ''document'' = Some (sort_keys (JObj (model_dump r)))"
    by (simp only: map_of_sort_key) simp
  then show "stored_document (sort_keys (document_payload created r)) = Inr r"
    unfolding s stored_document_def
    by (simp only: json.case option.case model_validate_sorted [OF assms])
  have "length (sort_key fst ?items) = 2" by (simp only: length_sort) simp
  then have "sort_key fst ?items \<noteq> []" by auto
  then show "truthy (sort_keys (document_payload created r))"
    unfolding s by simp
qed

lemma load_save: "reads_back c v \<Longrightarrow> load c (save c v) = Inr (sort_keys v)"
  by (simp add: load_def save_def read_text_def reads_back_def)

lemma loaded_entry:
  "sort_keys (JObj (dict_set kvs did entry)) = JObj kvs' \<Longrightarrow> map_of kvs' did = Some (sort_keys entry)"
proof -
  assume "sort_keys (JObj (dict_set kvs did entry)) = JObj kvs'"
  then have k: "kvs' = sort_key fst (map (\<lambda>(k, v). (k, sort_keys v)) (dict_set kvs did entry))"
    by simp
  show ?thesis
    unfolding k by (simp only: map_of_sort_key map_of_map_values map_of_dict_set option.map)
qed

lemma get_after_write:
  assumes "reads_back c (JObj (dict_set kvs did (document_payload created r)))"
    and "valid_request r"
  shows "get c (save c (JObj (dict_set kvs did (document_payload created r)))) did = Inr (Some r)"
proof -
  let ?data = "JObj (dict_set kvs did (document_payload created r))"
  obtain kvs' where s: "sort_keys ?data = JObj kvs'" by simp
  have l: "load c (save c ?data) = Inr (JObj kvs')" using assms(1) s by (simp add: load_save)
  have e: "map_of kvs' did = Some (sort_keys (document_payload created r))"
    using s by (rule loaded_entry)
  show ?thesis
    unfolding get_def l
    by (simp only: sum.case json.case e option.case stored_document_payload [OF assms(2)]
        not_True_eq_False if_False sum.case)
qed


section \<open>The registry\<close>

lemma valid_request_id:
  "valid_request (r\<lparr>DocumentIngestionRequest.document_id := x\<rparr>) = valid_request r"
  by (simp add: valid_request_def)

text \<open>\<open>register\<close> succeeds whenever the store read is a mapping.\<close>

lemma register_data_succeeds:
  assumes "load c file = Inr (JObj kvs)"
  shows "\<exists>data. register_data c file created uuid r
           = Inr (resolve_id (DocumentIngestionRequest.document_id r) uuid, data)"
  using assms by (simp add: register_data_def Let_def)

lemma register_data_cases:
  assumes "register_data c file created uuid r = Inr (did, data)"
  obtains kvs where "load c file = Inr (JObj kvs)"
    and "did = resolve_id (DocumentIngestionRequest.document_id r) uuid"
    and "data = JObj (dict_set kvs did
           (document_payload created (r\<lparr>DocumentIngestionRequest.document_id := Some did\<rparr>)))"
  using assms by (auto simp add: register_data_def Let_def split: sum.splits json.splits)

text \<open>
  Claim C1. If \<open>register\<close> succeeds for a record \<open>r\<close> and the decoder reads the written
  store back, then \<open>get\<close> on the returned id yields \<open>r\<close> with \<open>document_id\<close> set to that id and
  every other field as in \<open>r\<close>. The id is the one \<open>r\<close> carries, and the fresh one when \<open>r\<close>
  carries none (or an empty one). The defaults are those of the record \<open>r\<close> itself, applied
  when it is validated; the creation time is stored beside the document and is no field
  of the record returned.
\<close>

theorem register_get_roundtrip:
  assumes "register_data c file created uuid r = Inr (did, data)"
    and "reads_back c data"
    and "valid_request r"
  shows "register c file created uuid r =
           Inr (save c data,
                \<lparr>DocumentIngestionResponse.document_id = did, status = Received,
                 received_at = created\<rparr>) \<and>
         did = (case DocumentIngestionRequest.document_id r of
                  None \<Rightarrow> uuid
                | Some given \<Rightarrow> if given = [] then uuid else given) \<and>
         get c (save c data) did =
           Inr (Some (r\<lparr>DocumentIngestionRequest.document_id := Some did\<rparr>))"
proof -
  let ?r = "r\<lparr>DocumentIngestionRequest.document_id := Some did\<rparr>"
  from assms(1) obtain kvs where
    d: "did = resolve_id (DocumentIngestionRequest.document_id r) uuid"
    and p: "data = JObj (dict_set kvs did (document_payload created ?r))"
    by (rule register_data_cases)
  from d have d': "did = (case DocumentIngestionRequest.document_id r of
                  None \<Rightarrow> uuid
                | Some given \<Rightarrow> if given = [] then uuid else given)"
    by (simp only: resolve_id_def)
  have v: "valid_request ?r" using assms(3) by (simp only: valid_request_id)
  have "get c (save c (JObj (dict_set kvs did (document_payload created ?r)))) did
          = Inr (Some ?r)"
    using assms(2) v unfolding p by (rule get_after_write)
  then have g: "get c (save c data) did = Inr (Some ?r)" by (simp only: p)
  have "register c file created uuid r =
           Inr (save c data,
                \<lparr>DocumentIngestionResponse.document_id = did, status = Received,
                 received_at = created\<rparr>)"
    using assms(1) by (simp add: register_def)
  then show ?thesis using d' g by (intro conjI)
qed

theorem register_get_roundtrip_witness:
  "register registration_codec (Text []) (Datetime ''2024-01-01T00:00:00'') ''7c0e'' fund_a
     = Inr (Text ''store-a'',
            \<lparr>DocumentIngestionResponse.document_id = ''7c0e'', status = Received,
             received_at = Datetime ''2024-01-01T00:00:00''\<rparr>) \<and>
   get registration_codec (Text ''store-a'') ''7c0e''
     = Inr (Some (fund_a\<lparr>DocumentIngestionRequest.document_id := Some ''7c0e''\<rparr>)) \<and>
   register registration_codec (Text []) (Datetime ''2024-01-01T00:00:00'') ''3aa1'' fund_b
     = Inr (Text ''store-b'',
            \<lparr>DocumentIngestionResponse.document_id = ''doc-b'', status = Received,
             received_at = Datetime ''2024-01-01T00:00:00''\<rparr>) \<and>
   get registration_codec (Text ''store-b'') ''doc-b'' = Inr (Some fund_b)"
proof -
  let ?c = "registration_codec"
  let ?t = "Datetime ''2024-01-01T00:00:00''"
  have a1: "register_data ?c (Text []) ?t ''7c0e'' fund_a = Inr (''7c0e'', fund_a_registered)"
    by code_simp
  have a2: "reads_back ?c fund_a_registered"
    by code_simp
  have a3: "valid_request fund_a"
    by code_simp
  have a4: "save ?c fund_a_registered = Text ''store-a''"
    by code_simp
  have b1: "register_data ?c (Text []) ?t ''3aa1'' fund_b = Inr (''doc-b'', fund_b_registered)"
    by code_simp
  have b2: "reads_back ?c fund_b_registered"
    by code_simp
  have b3: "valid_request fund_b"
    by code_simp
  have b4: "save ?c fund_b_registered = Text ''store-b''"
    by code_simp
  have b5: "fund_b\<lparr>DocumentIngestionRequest.document_id := Some ''doc-b''\<rparr> = fund_b"
    by (simp add: fund_b_def)
  from register_get_roundtrip [OF a1 a2 a3]
  have a: "register ?c (Text []) ?t ''7c0e'' fund_a
     = Inr (Text ''store-a'',
            \<lparr>DocumentIngestionResponse.document_id = ''7c0e'', status = Received,
             received_at = ?t\<rparr>) \<and>
     get ?c (Text ''store-a'') ''7c0e''
     = Inr (Some (fund_a\<lparr>DocumentIngestionRequest.document_id := Some ''7c0e''\<rparr>))"
    unfolding a4 by (elim conjE) (intro conjI)
  from register_get_roundtrip [OF b1 b2 b3]
  have b: "register ?c (Text []) ?t ''3aa1'' fund_b
     = Inr (Text ''store-b'',
            \<lparr>DocumentIngestionResponse.document_id = ''doc-b'', status = Received,
             received_at = ?t\<rparr>) \<and>
     get ?c (Text ''store-b'') ''doc-b'' = Inr (Some fund_b)"
    unfolding b4 b5 by (elim conjE) (intro conjI)
  from a b show ?thesis by (elim conjE) (intro conjI)
qed

lemma length_dict_set: "map_of kvs k = Some old \<Longrightarrow> length (dict_set kvs k v) = length kvs"
  by (induction kvs) (auto split: if_splits)

text \<open>
  Claim C5. When the store holds an entry for the id a record carries, \<open>register\<close> puts the
  new entry in its place: the store read back has at that id exactly the entry of the new
  payload (nothing of the old value), it has as many entries as before, and \<open>get\<close> returns
  the new record, so that a field the new payload leaves empty is empty.
\<close>

theorem reregistration_overwrites:
  assumes "load c file = Inr (JObj kvs)"
    and "map_of kvs did = Some old"
    and "DocumentIngestionRequest.document_id r = Some did"
    and "did \<noteq> []"
    and "reads_back c (JObj (dict_set kvs did (document_payload created r)))"
    and "valid_request r"
  shows "let data = JObj (dict_set kvs did (document_payload created r)) in
     register c file created uuid r =
       Inr (save c data,
            \<lparr>DocumentIngestionResponse.document_id = did, status = Received,
             received_at = created\<rparr>) \<and>
     (\<exists>kvs'. load c (save c data) = Inr (JObj kvs') \<and>
        map_of kvs' did = Some (sort_keys (document_payload created r)) \<and>
        length kvs' = length kvs) \<and>
     get c (save c data) did = Inr (Some r)"
proof -
  let ?data = "JObj (dict_set kvs did (document_payload created r))"
  have i: "resolve_id (DocumentIngestionRequest.document_id r) uuid = did"
    using assms(3,4) by (simp add: resolve_id_def)
  have u: "r\<lparr>DocumentIngestionRequest.document_id := Some did\<rparr> = r"
    using assms(3) by simp
  have a: "register c file created uuid r =
       Inr (save c ?data,
            \<lparr>DocumentIngestionResponse.document_id = did, status = Received,
             received_at = created\<rparr>)"
    by (simp add: register_def register_data_def assms(1) i u)
  obtain kvs' where s: "sort_keys ?data = JObj kvs'" by simp
  have l: "load c (save c ?data) = Inr (JObj kvs')" using assms(5) s by (simp add: load_save)
  have e: "map_of kvs' did = Some (sort_keys (document_payload created r))"
    using s by (rule loaded_entry)
  have "length kvs' = length (dict_set kvs did (document_payload created r))"
    using s by auto
  then have n: "length kvs' = length kvs" using assms(2) by (simp add: length_dict_set)
  have g: "get c (save c ?data) did = Inr (Some r)"
    using assms(5,6) by (rule get_after_write)
  show ?thesis unfolding Let_def using a l e n g by blast
qed

lemma stored_before: "get old_new_codec (Text ''old'') ''doc-b'' = Inr (Some fund_b)"
  by code_simp

theorem reregistration_overwrites_witness:
  "register old_new_codec (Text ''old'') (Datetime ''2024-03-01T00:00:00'') ''9f1d''
       fund_b_revised
     = Inr (Text ''new'',
            \<lparr>DocumentIngestionResponse.document_id = ''doc-b'', status = Received,
             received_at = Datetime ''2024-03-01T00:00:00''\<rparr>) \<and>
   get old_new_codec (Text ''new'') ''doc-b'' = Inr (Some fund_b_revised)"
proof -
  let ?kvs = "[(''doc-b'', document_payload (Datetime ''2024-01-01T00:00:00'') fund_b),
               (''doc-x'', document_payload (Datetime ''2024-01-02T00:00:00'') fund_x)]"
  let ?t = "Datetime ''2024-03-01T00:00:00''"
  let ?data = "JObj (dict_set ?kvs ''doc-b'' (document_payload ?t fund_b_revised))"
  have h1: "load old_new_codec (Text ''old'') = Inr (JObj ?kvs)"
    by code_simp
  have h2: "map_of ?kvs ''doc-b'' = Some (document_payload (Datetime ''2024-01-01T00:00:00'') fund_b)"
    by simp
  have h3: "DocumentIngestionRequest.document_id fund_b_revised = Some ''doc-b''"
    by (simp add: fund_b_revised_def)
  have h4: "''doc-b'' \<noteq> []" by simp
  have h5: "reads_back old_new_codec ?data"
    by code_simp
  have h6: "valid_request fund_b_revised"
    by code_simp
  have s: "save old_new_codec ?data = Text ''new''"
    by code_simp
  show ?thesis
    using reregistration_overwrites [OF h1 h2 h3 h4 h5 h6, of "''9f1d''"]
    unfolding Let_def s by (elim conjE) (intro conjI)
qed

text \<open>
  Claim C8, as stated, fails: only \<open>JSONDecodeError\<close> is caught. A store file whose text
  decodes to a value that is no mapping (as the text \<open>[]\<close> does) is not treated as empty,
  the operations on it raise; and bytes that are no text make \<open>read_text\<close> raise.
\<close>

theorem malformed_store_raises:
  "get (table_codec [(''[]'', JArr [])]) (Text ''[]'') ''doc-b'' = Inl AttributeError \<and>
   list_documents (table_codec [(''[]'', JArr [])]) (Text ''[]'') = Inl AttributeError \<and>
   register (table_codec [(''[]'', JArr [])]) (Text ''[]'') (Datetime ''2024-01-01T00:00:00'')
     ''7c0e'' fund_a = Inl TypeError \<and>
   get (table_codec [(''[]'', JArr [])]) NotText ''doc-b'' = Inl UnicodeDecodeError"
  by code_simp

text \<open>
  So do the other exceptions of the decoder: whatever is not \<open>JSONDecodeError\<close> leaves
  \<open>_load\<close>, and with it every operation of the registry.
\<close>

lemma other_errors_propagate:
  assumes "strip text \<noteq> []" and "loads c (strip text) = Inl e" and "e \<noteq> JSONDecodeError"
  shows "load c (Text text) = Inl e"
    and "get c (Text text) did = Inl e"
    and "list_documents c (Text text) = Inl e"
    and "register c (Text text) created uuid r = Inl e"
  using assms
  by (simp_all add: load_def read_text_def get_def list_documents_def register_def
      register_data_def)

lemma non_mapping_store_raises:
  assumes "load c file = Inr v" and "\<forall>kvs. v \<noteq> JObj kvs"
  shows "get c file did = Inl AttributeError"
    and "list_documents c file = Inl AttributeError"
    and "register c file created uuid r = Inl TypeError"
  using assms
  by (cases v; simp add: get_def list_documents_def register_def register_data_def)+

text \<open>
  Claim C8, amended. When the store file is a text that is blank or that the decoder
  rejects as no JSON (\<open>JSONDecodeError\<close>), \<open>_load\<close> returns the empty mapping and raises
  nothing: \<open>get\<close> finds no document, \<open>list\<close> returns no document, and \<open>register\<close> writes a
  store that holds the new entry only.
\<close>

theorem malformed_store_is_empty:
  assumes "strip text = [] \<or> loads c (strip text) = Inl JSONDecodeError"
  shows "load c (Text text) = Inr (JObj []) \<and>
         get c (Text text) did = Inr None \<and>
         list_documents c (Text text) = Inr [] \<and>
         register_data c (Text text) created uuid r =
           Inr (resolve_id (DocumentIngestionRequest.document_id r) uuid,
                JObj [(resolve_id (DocumentIngestionRequest.document_id r) uuid,
                       document_payload created
                         (r\<lparr>DocumentIngestionRequest.document_id :=
                              Some (resolve_id (DocumentIngestionRequest.document_id r) uuid)\<rparr>))])"
proof -
  have l: "load c (Text text) = Inr (JObj [])"
    using assms by (auto simp add: load_def read_text_def Let_def)
  have g: "get c (Text text) did = Inr None" by (simp add: get_def l)
  have d: "list_documents c (Text text) = Inr []" by (simp add: list_documents_def l)
  have r: "register_data c (Text text) created uuid r =
           Inr (resolve_id (DocumentIngestionRequest.document_id r) uuid,
                JObj [(resolve_id (DocumentIngestionRequest.document_id r) uuid,
                       document_payload created
                         (r\<lparr>DocumentIngestionRequest.document_id :=
                              Some (resolve_id (DocumentIngestionRequest.document_id r) uuid)\<rparr>))])"
    by (simp add: register_data_def l Let_def)
  show ?thesis using l g d r by (intro conjI)
qed

theorem malformed_store_is_empty_witness:
  "get (one_text_codec two_documents) (Text ''{ doc-b: '') ''doc-b'' = Inr None \<and>
   list_documents (one_text_codec two_documents) (Text ''{ doc-b: '') = Inr []"
proof -
  have "loads (one_text_codec two_documents) (strip ''{ doc-b: '') = Inl JSONDecodeError"
    by code_simp
  then have h: "strip ''{ doc-b: '' = []
      \<or> loads (one_text_codec two_documents) (strip ''{ doc-b: '') = Inl JSONDecodeError"
    by (rule disjI2)
  show ?thesis
    using malformed_store_is_empty [OF h, of "''doc-b''"] by blast
qed

end
